theory Spec2Isabelle
  imports Complex_Main "HOL-Library.Multiset"
begin

section \<open>The bet slip (src/context/BetSlipContext.jsx)\<close>

text \<open>
  A selection is the object the pages hand to \<open>addSelection\<close>. JavaScript numbers are
  modelled as reals (no rounding, no NaN); a field that may be absent is an option, with
  \<open>None\<close> for \<open>undefined\<close>.
\<close>

record SelectionItem =
  gameId :: string
  gameDescription :: string
  gameTime :: string
  marketType :: string
  selection :: string
  odds :: real
  line :: "real option"
  playerName :: "string option"

text \<open>The provider's state: \<open>useState([])\<close> and \<open>useState(0)\<close>.\<close>

record BetSlip =
  items :: "SelectionItem list"
  stake :: real

subsection \<open>Array helpers\<close>

text \<open>\<open>Array.prototype.findIndex\<close>: the index of the first match, or \<open>-1\<close>.\<close>

fun findIndex_from :: "('a \<Rightarrow> bool) \<Rightarrow> int \<Rightarrow> 'a list \<Rightarrow> int" where
  "findIndex_from p i [] = -1"
| "findIndex_from p i (x # xs) = (if p x then i else findIndex_from p (i + 1) xs)"

definition findIndex :: "('a \<Rightarrow> bool) \<Rightarrow> 'a list \<Rightarrow> int" where
  "findIndex p xs = findIndex_from p 0 xs"

text \<open>\<open>xs.filter((x, i) => p(x, i))\<close>: a filter whose predicate also sees the index.\<close>

fun filter_index :: "('a \<Rightarrow> int \<Rightarrow> bool) \<Rightarrow> int \<Rightarrow> 'a list \<Rightarrow> 'a list" where
  "filter_index p i [] = []"
| "filter_index p i (x # xs) =
     (if p x i then x # filter_index p (i + 1) xs else filter_index p (i + 1) xs)"

text \<open>\<open>s.startsWith(t)\<close>, \<open>s.includes(t)\<close> and \<open>s.split(" ")[0]\<close>.\<close>

definition startsWith :: "string \<Rightarrow> string \<Rightarrow> bool" where
  "startsWith s t = (take (length t) s = t)"

fun str_includes :: "string \<Rightarrow> string \<Rightarrow> bool" where
  "str_includes [] t = (t = [])"
| "str_includes (c # s) t = (startsWith (c # s) t \<or> str_includes s t)"

definition first_word :: "string \<Rightarrow> string" where
  "first_word s = takeWhile (\<lambda>c. c \<noteq> CHR '' '') s"

subsection \<open>Slip operations\<close>

definition same_pick :: "SelectionItem \<Rightarrow> SelectionItem \<Rightarrow> bool" where
  "same_pick sel item =
     (gameId item = gameId sel \<and> marketType item = marketType sel \<and>
      selection item = selection sel)"

definition same_market :: "SelectionItem \<Rightarrow> SelectionItem \<Rightarrow> bool" where
  "same_market sel item = (gameId item = gameId sel \<and> marketType item = marketType sel)"

definition addSelection :: "SelectionItem \<Rightarrow> SelectionItem list \<Rightarrow> SelectionItem list" where
  "addSelection sel prev =
     (let existingIndex = findIndex (same_pick sel) prev in
      if existingIndex \<ge> 0 then filter_index (\<lambda>_ i. i \<noteq> existingIndex) 0 prev
      else (let filtered = filter (\<lambda>item. \<not> same_market sel item) prev
            in filtered @ [sel]))"

definition removeSelection :: "int \<Rightarrow> SelectionItem list \<Rightarrow> SelectionItem list" where
  "removeSelection index prev = filter_index (\<lambda>_ i. i \<noteq> index) 0 prev"

definition isSelected :: "SelectionItem list \<Rightarrow> string \<Rightarrow> string \<Rightarrow> string \<Rightarrow> bool" where
  "isSelected its g m s =
     list_ex (\<lambda>item. gameId item = g \<and> marketType item = m \<and> selection item = s) its"

text \<open>The calls a component can make on the context, and their effect on the state.\<close>

datatype SlipAction =
  AddSelection SelectionItem
| RemoveSelection int
| ClearBetSlip
| SetStake real

fun slip_step :: "BetSlip \<Rightarrow> SlipAction \<Rightarrow> BetSlip" where
  "slip_step s (AddSelection sel) = s\<lparr>items := addSelection sel (items s)\<rparr>"
| "slip_step s (RemoveSelection index) = s\<lparr>items := removeSelection index (items s)\<rparr>"
| "slip_step s ClearBetSlip = s\<lparr>items := [], stake := 0\<rparr>"
| "slip_step s (SetStake v) = s\<lparr>stake := v\<rparr>"

definition initial_slip :: BetSlip where
  "initial_slip = \<lparr>items = [], stake = 0\<rparr>"

definition run_slip :: "SlipAction list \<Rightarrow> BetSlip" where
  "run_slip acts = foldl slip_step initial_slip acts"

subsection \<open>Odds aggregation\<close>

definition rawOdds :: "SelectionItem list \<Rightarrow> real" where
  "rawOdds its = foldl (\<lambda>total item. total * odds item) 1 its"

definition isSGM :: "SelectionItem list \<Rightarrow> bool" where
  "isSGM its = (length its > 1 \<and> list_all (\<lambda>item. gameId item = gameId (hd its)) its)"

definition hasH2H :: "SelectionItem list \<Rightarrow> bool" where
  "hasH2H its = list_ex (\<lambda>i. marketType i = ''h2h'') its"

definition hasSpread :: "SelectionItem list \<Rightarrow> bool" where
  "hasSpread its = list_ex (\<lambda>i. marketType i = ''spread'') its"

definition hasTotal :: "SelectionItem list \<Rightarrow> bool" where
  "hasTotal its = list_ex (\<lambda>i. marketType i = ''total'') its"

definition hasPlayerProps :: "SelectionItem list \<Rightarrow> bool" where
  "hasPlayerProps its = list_ex (\<lambda>i. startsWith (marketType i) ''player_'') its"

text \<open>
  The test of the first \<open>if\<close> of \<open>calculateCorrelationFactor\<close>: the first h2h item
  and the first spread item (\<open>Array.prototype.find\<close>) exist, and the h2h pick is the
  first space-separated word of the spread pick.
\<close>

definition sameTeamH2HSpread :: "SelectionItem list \<Rightarrow> bool" where
  "sameTeamH2HSpread its =
     (hasH2H its \<and> hasSpread its \<and>
      (case (find (\<lambda>i. marketType i = ''h2h'') its, find (\<lambda>i. marketType i = ''spread'') its) of
         (Some h2hItem, Some spreadItem) \<Rightarrow> selection h2hItem = first_word (selection spreadItem)
       | _ \<Rightarrow> False))"

definition calculateCorrelationFactor :: "SelectionItem list \<Rightarrow> real" where
  "calculateCorrelationFactor its =
     (let factor = 1;
          factor = (if sameTeamH2HSpread its then factor * 0.9 else factor);
          factor = (if hasPlayerProps its \<and> (hasH2H its \<or> hasSpread its \<or> hasTotal its)
                    then factor * 0.95 else factor)
      in factor)"

definition correlationFactor :: "SelectionItem list \<Rightarrow> real" where
  "correlationFactor its = (if isSGM its then calculateCorrelationFactor its else 1)"

definition totalOdds :: "SelectionItem list \<Rightarrow> real" where
  "totalOdds its = rawOdds its * correlationFactor its"

definition potentialPayout :: "BetSlip \<Rightarrow> real" where
  "potentialPayout s = stake s * totalOdds (items s)"

subsection \<open>Conflict detection\<close>

record Conflict =
  conflict_type :: string
  message :: string

datatype js_error = TypeError

text \<open>
  \<open>gameGroups\<close> and \<open>playerGroups\<close> are plain objects (\<open>{}\<close>) used as dictionaries
  from strings to arrays. An object is modelled by its own properties in creation
  order, together with the names every object inherits from \<open>Object.prototype\<close>.
  The loop body is
  \<^verbatim>\<open>if (!groups[k]) groups[k] = []; groups[k].push(v)\<close>.
  Where \<open>k\<close> is an own property the array is extended. Where \<open>k\<close> is not an own
  property but an inherited name, \<open>groups[k]\<close> is the inherited function (for
  \<open>__proto__\<close>, the prototype object), which is truthy and has no \<open>push\<close>: the call
  throws a TypeError. Otherwise a new array is created.
\<close>

definition Object_prototype_names :: "string list" where
  "Object_prototype_names =
     [''constructor'', ''__defineGetter__'', ''__defineSetter__'', ''hasOwnProperty'',
      ''__lookupGetter__'', ''__lookupSetter__'', ''isPrototypeOf'',
      ''propertyIsEnumerable'', ''toString'', ''valueOf'', ''__proto__'',
      ''toLocaleString'']"

fun push_own :: "string \<Rightarrow> 'a \<Rightarrow> (string \<times> 'a list) list \<Rightarrow> (string \<times> 'a list) list" where
  "push_own k v [] = [(k, [v])]"
| "push_own k v ((k', vs) # g) =
     (if k' = k then (k', vs @ [v]) # g else (k', vs) # push_own k v g)"

definition push_group ::
  "string \<Rightarrow> 'a \<Rightarrow> (string \<times> 'a list) list \<Rightarrow> js_error + (string \<times> 'a list) list" where
  "push_group k v g =
     (if map_of g k = None \<and> k \<in> set Object_prototype_names then Inl TypeError
      else Inr (push_own k v g))"

text \<open>The grouping loop; once a step has thrown, the error is the result.\<close>

definition group_by :: "('a \<Rightarrow> string) \<Rightarrow> 'a list \<Rightarrow> js_error + (string \<times> 'a list) list" where
  "group_by key xs =
     foldl (\<lambda>r x. case r of Inl e \<Rightarrow> Inl e | Inr g \<Rightarrow> push_group (key x) x g) (Inr []) xs"

text \<open>
  \<open>Object.entries\<close> lists the keys that are array indices (canonical decimal numerals
  below \<open>2^32 - 1\<close>) first, in ascending numeric order, and then the other keys in
  creation order.
\<close>

definition is_digit :: "char \<Rightarrow> bool" where
  "is_digit c = (c \<in> set ''0123456789'')"

definition nat_of_digits :: "string \<Rightarrow> nat" where
  "nat_of_digits k = foldl (\<lambda>n c. 10 * n + (of_char c - 48)) 0 k"

definition array_index :: "string \<Rightarrow> nat option" where
  "array_index k =
     (if k \<noteq> [] \<and> list_all is_digit k \<and> (k = ''0'' \<or> hd k \<noteq> CHR ''0'') \<and>
         nat_of_digits k < 4294967295
      then Some (nat_of_digits k) else None)"

definition object_entries :: "(string \<times> 'a) list \<Rightarrow> (string \<times> 'a) list" where
  "object_entries g =
     sort_key (\<lambda>e. the (array_index (fst e))) (filter (\<lambda>e. array_index (fst e) \<noteq> None) g) @
     filter (\<lambda>e. array_index (fst e) = None) g"

text \<open>A template literal prints an absent value as \<open>undefined\<close>.\<close>

definition template_string :: "string option \<Rightarrow> string" where
  "template_string v = (case v of None \<Rightarrow> ''undefined'' | Some s \<Rightarrow> s)"

definition prop_key :: "SelectionItem \<Rightarrow> string" where
  "prop_key prop = template_string (playerName prop) @ ''-'' @ marketType prop"

definition is_player_prop :: "SelectionItem \<Rightarrow> bool" where
  "is_player_prop i = startsWith (marketType i) ''player_''"

definition h2h_conflicts :: "SelectionItem list \<Rightarrow> Conflict list" where
  "h2h_conflicts gameItems =
     (let h2hItems = filter (\<lambda>i. marketType i = ''h2h'') gameItems in
      if length h2hItems > 1
      then [\<lparr>conflict_type = ''h2h_conflict'',
             message = ''Cannot select both teams to win the same game''\<rparr>]
      else [])"

definition total_conflicts :: "SelectionItem list \<Rightarrow> Conflict list" where
  "total_conflicts gameItems =
     (let totalItems = filter (\<lambda>i. marketType i = ''total'') gameItems in
      if length totalItems > 1
      then (let hasOver = list_ex (\<lambda>i. str_includes (selection i) ''Over'') totalItems;
                hasUnder = list_ex (\<lambda>i. str_includes (selection i) ''Under'') totalItems
            in if hasOver \<and> hasUnder
               then [\<lparr>conflict_type = ''total_conflict'',
                      message = ''Cannot select both Over and Under for the same total''\<rparr>]
               else [])
      else [])"

text \<open>The body of the loop over the player groups: one entry of \<open>playerGroups\<close>.\<close>

definition player_group_conflict :: "string \<times> SelectionItem list \<Rightarrow> Conflict list" where
  "player_group_conflict e =
     (let props = snd e in
      if length props > 1
      then [\<lparr>conflict_type = ''player_prop_conflict'',
             message = ''Cannot select both Over and Under for '' @
                       template_string (playerName (hd props))\<rparr>]
      else [])"

definition player_prop_conflicts :: "SelectionItem list \<Rightarrow> js_error + Conflict list" where
  "player_prop_conflicts gameItems =
     (let playerProps = filter is_player_prop gameItems in
      case group_by prop_key playerProps of
        Inl e \<Rightarrow> Inl e
      | Inr playerGroups \<Rightarrow>
          Inr (concat (map player_group_conflict (object_entries playerGroups))))"

text \<open>The body of the loop over the games: the three checks, in the order of the source.\<close>

definition game_conflicts :: "SelectionItem list \<Rightarrow> js_error + Conflict list" where
  "game_conflicts gameItems =
     (case player_prop_conflicts gameItems of
        Inl e \<Rightarrow> Inl e
      | Inr cs \<Rightarrow> Inr (h2h_conflicts gameItems @ total_conflicts gameItems @ cs))"

fun conflicts_of_games ::
  "(string \<times> SelectionItem list) list \<Rightarrow> js_error + Conflict list" where
  "conflicts_of_games [] = Inr []"
| "conflicts_of_games (e # es) =
     (case game_conflicts (snd e) of
        Inl x \<Rightarrow> Inl x
      | Inr cs \<Rightarrow>
          (case conflicts_of_games es of Inl x \<Rightarrow> Inl x | Inr ds \<Rightarrow> Inr (cs @ ds)))"

definition getConflicts :: "SelectionItem list \<Rightarrow> js_error + Conflict list" where
  "getConflicts its =
     (case group_by gameId its of
        Inl e \<Rightarrow> Inl e
      | Inr gameGroups \<Rightarrow> conflicts_of_games (object_entries gameGroups))"

text \<open>\<open>conflicts.length > 0\<close>, not reached when \<open>getConflicts\<close> has thrown.\<close>

definition hasConflict :: "SelectionItem list \<Rightarrow> js_error + bool" where
  "hasConflict its =
     (case getConflicts its of Inl e \<Rightarrow> Inl e | Inr conflicts \<Rightarrow> Inr (length conflicts > 0))"

section \<open>The ledger (services/appwrite.js)\<close>

text \<open>
  The documents of the three collections \<open>placeBet\<close> touches. A document id
  (\<open>$id\<close>, from \<open>ID.unique()\<close>) is a number drawn from a counter kept in the
  database, so that every created document gets an id no other document has.
  \<open>lastwintime\<close> is an ISO timestamp or \<open>null\<close>; it is modelled by the instant it
  denotes, in milliseconds.
\<close>

record WeekBalance =
  wb_id :: nat
  weekid :: string
  leagueid :: string
  userid :: string
  displayname :: string
  balance :: real
  highestwinpayout :: real
  totalbets :: int
  lastwintime :: "int option"

record Bet =
  bet_id :: nat
  bet_userId :: string
  bet_leagueId :: string
  bet_weekId :: string
  betType :: string
  bet_stake :: real
  bet_totalOdds :: real
  bet_potentialPayout :: real
  status :: string
  settledAt :: "string option"
  createdAt :: string

record BetLeg =
  leg_id :: nat
  betId :: nat
  leg_gameId :: string
  leg_gameDescription :: string
  leg_gameTime :: string
  leg_marketType :: string
  leg_selection :: string
  leg_odds :: real
  leg_line :: "real option"
  result :: string
  actualValue :: "real option"
  leg_playerName :: "string option"

record Database =
  week_balances :: "WeekBalance list"
  bets :: "Bet list"
  bet_legs :: "BetLeg list"
  next_id :: nat

text \<open>The object \<open>handlePlaceBet\<close> passes to \<open>placeBet\<close>: the slip and its two totals.\<close>

record PlacedSlip = BetSlip +
  slip_totalOdds :: real
  slip_potentialPayout :: real

datatype error = InsufficientBalance

definition STARTING_BALANCE :: real where
  "STARTING_BALANCE = 1000"

text \<open>\<open>x || null\<close> on a number and on a string: \<open>0\<close> and the empty string are falsy.\<close>

definition number_or_null :: "real option \<Rightarrow> real option" where
  "number_or_null v = (case v of None \<Rightarrow> None | Some x \<Rightarrow> if x = 0 then None else Some x)"

definition string_or_null :: "string option \<Rightarrow> string option" where
  "string_or_null v = (case v of None \<Rightarrow> None | Some x \<Rightarrow> if x = [] then None else Some x)"

definition userBalance :: "Database \<Rightarrow> string \<Rightarrow> string \<Rightarrow> WeekBalance option" where
  "userBalance db weekId userId =
     find (\<lambda>b. weekid b = weekId \<and> userid b = userId) (week_balances db)"

definition getOrCreateUserBalance ::
  "string \<Rightarrow> string \<Rightarrow> string \<Rightarrow> string \<Rightarrow> Database \<Rightarrow> WeekBalance \<times> Database" where
  "getOrCreateUserBalance weekId leagueId userId displayName db =
     (case userBalance db weekId userId of
        Some balance_doc \<Rightarrow> (balance_doc, db)
      | None \<Rightarrow>
          (let doc = \<lparr>wb_id = next_id db, weekid = weekId, leagueid = leagueId,
                      userid = userId, displayname = displayName,
                      balance = STARTING_BALANCE, highestwinpayout = 0, totalbets = 0,
                      lastwintime = None\<rparr>
           in (doc, db\<lparr>week_balances := week_balances db @ [doc],
                       next_id := next_id db + 1\<rparr>)))"

definition bet_leg_document :: "nat \<Rightarrow> nat \<Rightarrow> SelectionItem \<Rightarrow> BetLeg" where
  "bet_leg_document new_id bet item =
     \<lparr>leg_id = new_id, betId = bet, leg_gameId = gameId item,
      leg_gameDescription = gameDescription item, leg_gameTime = gameTime item,
      leg_marketType = marketType item, leg_selection = selection item,
      leg_odds = odds item, leg_line = number_or_null (line item),
      result = ''pending'', actualValue = None,
      leg_playerName = string_or_null (playerName item)\<rparr>"

definition createBetLeg :: "nat \<Rightarrow> Database \<Rightarrow> SelectionItem \<Rightarrow> Database" where
  "createBetLeg bet db item =
     db\<lparr>bet_legs := bet_legs db @ [bet_leg_document (next_id db) bet item],
        next_id := next_id db + 1\<rparr>"

definition updateBalance :: "nat \<Rightarrow> real \<Rightarrow> int \<Rightarrow> Database \<Rightarrow> Database" where
  "updateBalance doc_id new_balance new_totalbets db =
     db\<lparr>week_balances :=
          map (\<lambda>d. if wb_id d = doc_id
                    then d\<lparr>balance := new_balance, totalbets := new_totalbets\<rparr> else d)
              (week_balances db)\<rparr>"

text \<open>
  \<open>placeBet\<close>, with the database passed in and returned and the clock reading
  \<open>now\<close> (for \<open>createdAt\<close>) as an argument. The \<open>throw\<close> is the \<open>Inl\<close> result; it
  does not undo a balance row that \<open>getOrCreateUserBalance\<close> has just created. The
  calls to the store are taken to succeed.
\<close>

definition placeBet ::
  "'a PlacedSlip_scheme \<Rightarrow> string \<Rightarrow> string \<Rightarrow> string \<Rightarrow> string \<Rightarrow> string \<Rightarrow> Database
     \<Rightarrow> (error + Bet) \<times> Database" where
  "placeBet betSlip userId leagueId weekId displayName now db =
     (let (balanceDoc, db1) = getOrCreateUserBalance weekId leagueId userId displayName db in
      if balance balanceDoc < stake betSlip then (Inl InsufficientBalance, db1)
      else
        (let bet = \<lparr>bet_id = next_id db1, bet_userId = userId, bet_leagueId = leagueId,
                     bet_weekId = weekId,
                     betType = (if length (items betSlip) > 1 then ''SGM'' else ''Single''),
                     bet_stake = stake betSlip, bet_totalOdds = slip_totalOdds betSlip,
                     bet_potentialPayout = slip_potentialPayout betSlip,
                     status = ''pending'', settledAt = None, createdAt = now\<rparr>;
             db2 = db1\<lparr>bets := bets db1 @ [bet], next_id := next_id db1 + 1\<rparr>;
             db3 = foldl (createBetLeg (bet_id bet)) db2 (items betSlip);
             db4 = updateBalance (wb_id balanceDoc) (balance balanceDoc - stake betSlip)
                     (totalbets balanceDoc + 1) db3
         in (Inr bet, db4)))"

section \<open>The weekly leaderboard\<close>

text \<open>The comparator handed to \<open>balances.sort\<close>.\<close>

definition compareBalances :: "WeekBalance \<Rightarrow> WeekBalance \<Rightarrow> real" where
  "compareBalances a b =
     (let balDiff = balance b - balance a in
      if balDiff \<noteq> 0 then balDiff
      else (let payDiff = highestwinpayout b - highestwinpayout a in
            if payDiff \<noteq> 0 then payDiff
            else (case (lastwintime a, lastwintime b) of
                    (Some ta, Some tb) \<Rightarrow> real_of_int (ta - tb)
                  | _ \<Rightarrow> 0)))"

record LeaderboardEntry =
  entry :: WeekBalance
  rank :: int

fun with_ranks :: "int \<Rightarrow> WeekBalance list \<Rightarrow> LeaderboardEntry list" where
  "with_ranks i [] = []"
| "with_ranks i (b # bs) = \<lparr>entry = b, rank = i + 1\<rparr> # with_ranks (i + 1) bs"

text \<open>
  \<open>Array.prototype.sort\<close> belongs to the engine, not to the repository: it is the
  parameter \<open>array_sort\<close> of \<open>getLeaderboard\<close>. What the language says of it is
  \<open>conforming_sort\<close> below.
\<close>

definition getLeaderboard ::
  "((WeekBalance \<Rightarrow> WeekBalance \<Rightarrow> real) \<Rightarrow> WeekBalance list \<Rightarrow> WeekBalance list)
     \<Rightarrow> WeekBalance list \<Rightarrow> string \<Rightarrow> LeaderboardEntry list" where
  "getLeaderboard array_sort allBalances weekId =
     (let balances = filter (\<lambda>b. weekid b = weekId) allBalances;
          balances = array_sort compareBalances balances
      in with_ranks 0 balances)"

text \<open>
  The language on \<open>Array.prototype.sort\<close>. A comparator is consistent for a
  collection of values when its ties are reflexive, symmetric and transitive, and its
  "less" and its "greater" are transitive. The result is always a rearrangement of the array. For a consistent
  comparator it is the one rearrangement that is in comparator order with ties in
  their original order, which is what a stable insertion sort returns (an element
  moves right past the elements it compares greater than); for an inconsistent
  comparator the order is left to the engine.
\<close>

definition consistent_comparator :: "('a \<Rightarrow> 'a \<Rightarrow> real) \<Rightarrow> 'a list \<Rightarrow> bool" where
  "consistent_comparator cmp xs =
     list_all (\<lambda>a. cmp a a = 0 \<and>
       list_all (\<lambda>b. (cmp a b = 0 \<longrightarrow> cmp b a = 0) \<and>
         list_all (\<lambda>c. (cmp a b = 0 \<and> cmp b c = 0 \<longrightarrow> cmp a c = 0) \<and>
                        (cmp a b < 0 \<and> cmp b c < 0 \<longrightarrow> cmp a c < 0) \<and>
                        (cmp a b > 0 \<and> cmp b c > 0 \<longrightarrow> cmp a c > 0)) xs) xs) xs"

fun insert_sorted :: "('a \<Rightarrow> 'a \<Rightarrow> real) \<Rightarrow> 'a \<Rightarrow> 'a list \<Rightarrow> 'a list" where
  "insert_sorted cmp x [] = [x]"
| "insert_sorted cmp x (y # ys) =
     (if cmp x y > 0 then y # insert_sorted cmp x ys else x # y # ys)"

definition insertion_sort :: "('a \<Rightarrow> 'a \<Rightarrow> real) \<Rightarrow> 'a list \<Rightarrow> 'a list" where
  "insertion_sort cmp xs = foldr (insert_sorted cmp) xs []"

definition conforming_sort :: "(('a \<Rightarrow> 'a \<Rightarrow> real) \<Rightarrow> 'a list \<Rightarrow> 'a list) \<Rightarrow> bool" where
  "conforming_sort array_sort =
     (\<forall>cmp xs. mset (array_sort cmp xs) = mset xs \<and>
                (consistent_comparator cmp xs \<longrightarrow>
                   array_sort cmp xs = insertion_sort cmp xs))"

text \<open>
  What the language leaves open, engines settle. An array in which no neighbouring
  pair is out of order (whichever of the two the comparator is asked about first) is
  returned as it is by a sort that works by insertion, and by one that first looks
  for ascending runs and finds the whole array to be one.
\<close>

definition in_comparator_order :: "('a \<Rightarrow> 'a \<Rightarrow> real) \<Rightarrow> 'a list \<Rightarrow> bool" where
  "in_comparator_order cmp xs =
     list_all (\<lambda>(x, y). cmp x y \<le> 0 \<and> 0 \<le> cmp y x) (zip xs (tl xs))"

definition keeps_runs :: "(('a \<Rightarrow> 'a \<Rightarrow> real) \<Rightarrow> 'a list \<Rightarrow> 'a list) \<Rightarrow> bool" where
  "keeps_runs array_sort =
     (\<forall>cmp xs. in_comparator_order cmp xs \<longrightarrow> array_sort cmp xs = xs)"

section \<open>The period scheduler\<close>

text \<open>
  A \<open>Date\<close> is modelled by its local time value: the milliseconds from local
  1970-01-01 00:00 to the wall-clock reading it shows. All the methods the scheduler
  calls (\<open>getDay\<close>, \<open>getDate\<close>, \<open>setDate\<close>, \<open>setHours\<close>, \<open>getFullYear\<close>,
  \<open>getMonth\<close>) read and write local fields, so the model follows the language
  definition of these methods on the local time value; it takes every local
  wall-clock reading to exist exactly once (no daylight-saving gap in the zone the
  code runs in).
\<close>

type_synonym Date = int

definition msPerDay :: int where
  "msPerDay = 86400000"

definition Day :: "Date \<Rightarrow> int" where
  "Day t = t div msPerDay"

definition TimeWithinDay :: "Date \<Rightarrow> int" where
  "TimeWithinDay t = t mod msPerDay"

definition MakeDate :: "int \<Rightarrow> int \<Rightarrow> Date" where
  "MakeDate day time = day * msPerDay + time"

definition MakeTime :: "int \<Rightarrow> int \<Rightarrow> int \<Rightarrow> int \<Rightarrow> int" where
  "MakeTime h m sec ms = h * 3600000 + m * 60000 + sec * 1000 + ms"

text \<open>
  The Gregorian calendar: the day number of a civil date (month \<open>0\<close> is January) and
  the civil date of a day number, day \<open>0\<close> being 1970-01-01.
\<close>

definition days_from_civil :: "int \<Rightarrow> int \<Rightarrow> int \<Rightarrow> int" where
  "days_from_civil year month date =
     (let m = month + 1;
          y = (if m \<le> 2 then year - 1 else year);
          era = y div 400;
          yoe = y - era * 400;
          doy = (153 * (if m > 2 then m - 3 else m + 9) + 2) div 5 + date - 1;
          doe = yoe * 365 + yoe div 4 - yoe div 100 + doy
      in era * 146097 + doe - 719468)"

definition civil_from_days :: "int \<Rightarrow> int \<times> int \<times> int" where
  "civil_from_days z =
     (let z1 = z + 719468;
          era = z1 div 146097;
          doe = z1 - era * 146097;
          yoe = (doe - doe div 1460 + doe div 36524 - doe div 146096) div 365;
          y = yoe + era * 400;
          doy = doe - (365 * yoe + yoe div 4 - yoe div 100);
          mp = (5 * doy + 2) div 153;
          d = doy - (153 * mp + 2) div 5 + 1;
          m = (if mp < 10 then mp + 3 else mp - 9)
      in (if m \<le> 2 then y + 1 else y, m - 1, d))"

definition getFullYear :: "Date \<Rightarrow> int" where
  "getFullYear t = fst (civil_from_days (Day t))"

definition getMonth :: "Date \<Rightarrow> int" where
  "getMonth t = fst (snd (civil_from_days (Day t)))"

text \<open>The day number of the first day of the month \<open>t\<close> lies in.\<close>

definition month_start :: "Date \<Rightarrow> int" where
  "month_start t = days_from_civil (getFullYear t) (getMonth t) 1"

definition getDate :: "Date \<Rightarrow> int" where
  "getDate t = Day t - month_start t + 1"

definition getDay :: "Date \<Rightarrow> int" where
  "getDay t = (Day t + 4) mod 7"

text \<open>
  \<open>setDate\<close> keeps the year, the month and the time of day, and counts the day of the
  month from the first of that month, carrying into the neighbouring months when it is
  out of range. \<open>setHours\<close> with four arguments keeps the day.
\<close>

definition setDate :: "Date \<Rightarrow> int \<Rightarrow> Date" where
  "setDate t dt = MakeDate (month_start t + dt - 1) (TimeWithinDay t)"

definition setHours :: "Date \<Rightarrow> int \<Rightarrow> int \<Rightarrow> int \<Rightarrow> int \<Rightarrow> Date" where
  "setHours t h m sec ms = MakeDate (Day t) (MakeTime h m sec ms)"

definition setFullYear :: "Date \<Rightarrow> int \<Rightarrow> Date" where
  "setFullYear t y =
     MakeDate (days_from_civil y (getMonth t) 1 + getDate t - 1) (TimeWithinDay t)"

definition newDate :: "int \<Rightarrow> int \<Rightarrow> int \<Rightarrow> Date" where
  "newDate year month date = MakeDate (days_from_civil year month date) 0"

text \<open>
  \<open>getAESTDate\<close> prints the instant as a wall-clock reading of Australia/Sydney, to the
  second, and reads the text back as a local date. The zone's offset from UTC at an
  instant (in milliseconds) comes from the time-zone database and is the parameter
  \<open>tz\<close>; \<open>instant\<close> is the clock reading \<open>new Date()\<close>.
\<close>

definition getAESTDate :: "(int \<Rightarrow> int) \<Rightarrow> int \<Rightarrow> Date" where
  "getAESTDate tz instant = (let wall = instant + tz instant in wall - wall mod 1000)"

definition getWeekBounds :: "(int \<Rightarrow> int) \<Rightarrow> int \<Rightarrow> Date \<times> Date" where
  "getWeekBounds tz instant =
     (let now = getAESTDate tz instant;
          day = getDay now;
          daysFromTuesday = (day + 5) mod 7;
          startDate = now;
          startDate = setDate startDate (getDate now - daysFromTuesday);
          startDate = setHours startDate 0 0 0 0;
          endDate = startDate;
          endDate = setDate endDate (getDate startDate + 6);
          endDate = setHours endDate 23 59 59 999
      in (startDate, endDate))"

definition getWeekNumber :: "(int \<Rightarrow> int) \<Rightarrow> int \<Rightarrow> int" where
  "getWeekNumber tz instant =
     (let now = getAESTDate tz instant;
          startOfSeason = newDate (getFullYear now) 9 22;
          startOfSeason = (if now < startOfSeason
                           then setFullYear startOfSeason (getFullYear startOfSeason - 1)
                           else startOfSeason);
          weekNum = (now - startOfSeason) div (7 * 24 * 60 * 60 * 1000) + 1
      in max 1 weekNum)"

definition getSeasonYear :: "(int \<Rightarrow> int) \<Rightarrow> int \<Rightarrow> int" where
  "getSeasonYear tz instant =
     (let now = getAESTDate tz instant;
          month = getMonth now
      in if month \<ge> 9 then getFullYear now + 1 else getFullYear now)"

section \<open>Notions used to state the properties\<close>

text \<open>The identity of a pick, and of the market it belongs to.\<close>

definition pick_key :: "SelectionItem \<Rightarrow> string \<times> string \<times> string" where
  "pick_key i = (gameId i, marketType i, selection i)"

definition market_key :: "SelectionItem \<Rightarrow> string \<times> string" where
  "market_key i = (gameId i, marketType i)"

text \<open>At most one pick per market per game.\<close>

definition one_per_market :: "SelectionItem list \<Rightarrow> bool" where
  "one_per_market its = distinct (map market_key its)"

text \<open>A list without its first element that satisfies \<open>p\<close>.\<close>

definition remove_first :: "('a \<Rightarrow> bool) \<Rightarrow> 'a list \<Rightarrow> 'a list" where
  "remove_first p xs = takeWhile (\<lambda>x. \<not> p x) xs @ tl (dropWhile (\<lambda>x. \<not> p x) xs)"

text \<open>The selections a sequence of calls has passed to \<open>addSelection\<close>.\<close>

fun added_selections :: "SlipAction list \<Rightarrow> SelectionItem list" where
  "added_selections [] = []"
| "added_selections (AddSelection sel # acts) = sel # added_selections acts"
| "added_selections (a # acts) = added_selections acts"

text \<open>
  The keys of a selection as the feed and the pages supply them: the market type has
  no hyphen (no market type of the configuration or of the feed has one) and the game
  id is not a name every object inherits.
\<close>

definition market_vocabulary :: "string list" where
  "market_vocabulary =
     [''h2h'', ''spread'', ''total'', ''player_points'', ''player_rebounds'',
      ''player_assists'', ''player_threes'', ''player_pra'', ''spreads'', ''totals'',
      ''player_points_rebounds_assists'']"

definition feed_keys :: "SelectionItem \<Rightarrow> bool" where
  "feed_keys sel =
     (CHR ''-'' \<notin> set (marketType sel) \<and> gameId sel \<notin> set Object_prototype_names)"

text \<open>A player-prop market type, and the Over and the Under pick of a player prop as
  the pages print them: the player's name, the direction and the line.\<close>

definition prop_type :: "string \<Rightarrow> bool" where
  "prop_type t = (startsWith t ''player_'' \<and> CHR ''-'' \<notin> set t)"

definition over_pick :: "SelectionItem \<Rightarrow> bool" where
  "over_pick i = startsWith (selection i) (template_string (playerName i) @ '' Over '')"

definition under_pick :: "SelectionItem \<Rightarrow> bool" where
  "under_pick i = startsWith (selection i) (template_string (playerName i) @ '' Under '')"

text \<open>The picks of a slip for game \<open>g\<close>, player \<open>p\<close> and prop type \<open>t\<close>.\<close>

definition pair_picks ::
  "SelectionItem list \<Rightarrow> string \<Rightarrow> string \<Rightarrow> string \<Rightarrow> SelectionItem list" where
  "pair_picks its g p t =
     filter (\<lambda>i. gameId i = g \<and> template_string (playerName i) = p \<and> marketType i = t) its"

definition has_over :: "SelectionItem list \<Rightarrow> string \<Rightarrow> string \<Rightarrow> string \<Rightarrow> bool" where
  "has_over its g p t = list_ex over_pick (pair_picks its g p t)"

definition has_under :: "SelectionItem list \<Rightarrow> string \<Rightarrow> string \<Rightarrow> string \<Rightarrow> bool" where
  "has_under its g p t = list_ex under_pick (pair_picks its g p t)"


definition player_conflict_record :: "string \<Rightarrow> Conflict" where
  "player_conflict_record p =
     \<lparr>conflict_type = ''player_prop_conflict'',
      message = ''Cannot select both Over and Under for '' @ p\<rparr>"

text \<open>
  Picks as the pages build them from the feed's player props: a player-prop pick is
  the Over or the Under of a quote, and a game has one quote, with one line, per
  player and prop type, so that two picks of the same player, prop type and
  direction are the same selection.
\<close>

definition picks_from_quotes :: "SelectionItem list \<Rightarrow> bool" where
  "picks_from_quotes its =
     list_all (\<lambda>a. (is_player_prop a \<longrightarrow> over_pick a \<or> under_pick a) \<and>
       list_all (\<lambda>b. is_player_prop a \<and> gameId a = gameId b \<and> prop_key a = prop_key b \<and>
                      over_pick a = over_pick b \<longrightarrow> selection a = selection b) its) its"

text \<open>The product of the odds of the selections.\<close>

definition odds_product :: "SelectionItem list \<Rightarrow> real" where
  "odds_product its = prod_list (map odds its)"

text \<open>
  The order of the weekly leaderboard in the words of the specification: balance
  descending, then highest win payout descending, then last win time ascending (two
  entries are comparable on the last key when both have a win time).
\<close>

definition time_le :: "int option \<Rightarrow> int option \<Rightarrow> bool" where
  "time_le ta tb = (case (ta, tb) of (Some x, Some y) \<Rightarrow> x \<le> y | _ \<Rightarrow> True)"

definition time_lt :: "int option \<Rightarrow> int option \<Rightarrow> bool" where
  "time_lt ta tb = (case (ta, tb) of (Some x, Some y) \<Rightarrow> x < y | _ \<Rightarrow> False)"

definition ranks_before :: "WeekBalance \<Rightarrow> WeekBalance \<Rightarrow> bool" where
  "ranks_before a b =
     (balance a > balance b \<or>
      (balance a = balance b \<and>
       (highestwinpayout a > highestwinpayout b \<or>
        (highestwinpayout a = highestwinpayout b \<and>
         time_le (lastwintime a) (lastwintime b)))))"

definition tied :: "WeekBalance \<Rightarrow> WeekBalance \<Rightarrow> bool" where
  "tied a b = (balance a = balance b \<and> highestwinpayout a = highestwinpayout b)"

text \<open>Among entries tied on balance and payout, either all have a win time or none has.\<close>

definition win_times_uniform :: "WeekBalance list \<Rightarrow> bool" where
  "win_times_uniform bs =
     list_all (\<lambda>a. list_all (\<lambda>b. tied a b \<longrightarrow>
                                  (lastwintime a = None) = (lastwintime b = None)) bs) bs"

section \<open>Example data\<close>

definition pick :: "string \<Rightarrow> string \<Rightarrow> real \<Rightarrow> string option \<Rightarrow> SelectionItem" where
  "pick m s od p =
     \<lparr>gameId = ''g1'', gameDescription = ''Celtics @ Lakers'',
      gameTime = ''2026-11-03T08:00:00Z'', marketType = m, selection = s, odds = od,
      line = None, playerName = p\<rparr>"

definition lakers_h2h :: SelectionItem where
  "lakers_h2h = pick ''h2h'' ''Lakers'' 1.8 None"

definition celtics_h2h :: SelectionItem where
  "celtics_h2h = pick ''h2h'' ''Celtics'' 2.1 None"

definition lakers_spread :: SelectionItem where
  "lakers_spread = pick ''spread'' ''Lakers +5.5'' 1.9 None"

definition james_over_25 :: SelectionItem where
  "james_over_25 = pick ''player_points'' ''LeBron James Over 25.5'' 2 (Some ''LeBron James'')"

definition james_over_27 :: SelectionItem where
  "james_over_27 = pick ''player_points'' ''LeBron James Over 27.5'' 2.4 (Some ''LeBron James'')"

definition james_under_25 :: SelectionItem where
  "james_under_25 = pick ''player_points'' ''LeBron James Under 25.5'' 1.8 (Some ''LeBron James'')"

definition curry_over_4 :: SelectionItem where
  "curry_over_4 = pick ''player_threes'' ''Stephen Curry Over 4.5'' 1.9 (Some ''Stephen Curry'')"

text \<open>Picks with a team name as the feed has it, and the market types \<open>spread\<close> of
  the configuration and \<open>spreads\<close> of the feed and the pages.\<close>

definition los_angeles_h2h :: SelectionItem where
  "los_angeles_h2h = pick ''h2h'' ''Los Angeles Lakers'' 1.8 None"

definition los_angeles_spread :: SelectionItem where
  "los_angeles_spread = pick ''spread'' ''Los Angeles Lakers +5.5'' 1.9 None"

definition los_angeles_spreads :: SelectionItem where
  "los_angeles_spreads = pick ''spreads'' ''Los Angeles Lakers +5.5'' 1.9 None"

definition week_balance :: "nat \<Rightarrow> string \<Rightarrow> real \<Rightarrow> real \<Rightarrow> int option \<Rightarrow> WeekBalance" where
  "week_balance i u bal pay t =
     \<lparr>wb_id = i, weekid = ''w1'', leagueid = ''l1'', userid = u, displayname = u,
      balance = bal, highestwinpayout = pay, totalbets = 0, lastwintime = t\<rparr>"

text \<open>Three rows level on balance and payout: a win at time 2, no win, a win at time 1.\<close>

definition later_winner :: WeekBalance where
  "later_winner = week_balance 1 ''ann'' 1000 0 (Some 2)"

definition no_winner :: WeekBalance where
  "no_winner = week_balance 2 ''bob'' 1000 0 None"

definition earlier_winner :: WeekBalance where
  "earlier_winner = week_balance 3 ''cat'' 1000 0 (Some 1)"

definition database_with :: "WeekBalance \<Rightarrow> Database" where
  "database_with wb = \<lparr>week_balances = [wb], bets = [], bet_legs = [], next_id = 10\<rparr>"

definition slip_of_100 :: PlacedSlip where
  "slip_of_100 =
     \<lparr>items = [lakers_h2h, lakers_spread], stake = 100,
      slip_totalOdds = totalOdds [lakers_h2h, lakers_spread],
      slip_potentialPayout = 100 * totalOdds [lakers_h2h, lakers_spread]\<rparr>"

text \<open>Australia/Sydney during daylight saving: eleven hours ahead of UTC.\<close>

definition sydney_summer :: "int \<Rightarrow> int" where
  "sydney_summer instant = 39600000"

section \<open>Proofs: the bet slip\<close>

subsection \<open>Array helpers\<close>

lemma findIndex_from_eq:
  "findIndex_from p i xs =
     (if list_ex p xs then i + int (length (takeWhile (\<lambda>x. \<not> p x) xs)) else -1)"
  by (induction xs arbitrary: i) auto

lemma filter_index_all:
  "k < i \<Longrightarrow> filter_index (\<lambda>_ j. j \<noteq> k) i xs = xs"
  by (induction xs arbitrary: i) auto

lemma filter_index_remove:
  "k = i + int (length ys) \<Longrightarrow> filter_index (\<lambda>_ j. j \<noteq> k) i (ys @ z # zs) = ys @ zs"
proof (induction ys arbitrary: i)
  case Nil
  then show ?case by (simp add: filter_index_all)
next
  case (Cons y ys)
  from Cons.prems have "k = (i + 1) + int (length ys)" by simp
  from Cons.IH[OF this] Cons.prems show ?case by simp
qed

lemma set_filter_index: "set (filter_index p i xs) \<subseteq> set xs"
  by (induction xs arbitrary: i) auto

lemma distinct_map_filter_index:
  "distinct (map f xs) \<Longrightarrow> distinct (map f (filter_index p i xs))"
proof (induction xs arbitrary: i)
  case Nil
  then show ?case by simp
next
  case (Cons x xs)
  then show ?case using set_filter_index[of p "i + 1" xs] by auto
qed

subsection \<open>The two branches of \<open>addSelection\<close>\<close>

lemma addSelection_cases:
  "addSelection sel prev =
     (if list_ex (same_pick sel) prev
      then filter_index (\<lambda>_ i. i \<noteq> findIndex (same_pick sel) prev) 0 prev
      else filter (\<lambda>item. \<not> same_market sel item) prev @ [sel])"
  by (simp add: addSelection_def findIndex_def findIndex_from_eq Let_def)

lemma addSelection_existing:
  assumes "list_ex (same_pick sel) prev"
  shows "addSelection sel prev = remove_first (same_pick sel) prev"
proof -
  let ?p = "same_pick sel"
  let ?ys = "takeWhile (\<lambda>x. \<not> ?p x) prev"
  let ?rest = "dropWhile (\<lambda>x. \<not> ?p x) prev"
  from assms have "?rest \<noteq> []" by (auto simp: list_ex_iff)
  then obtain z zs where rest: "?rest = z # zs" by (cases ?rest) auto
  have split: "prev = ?ys @ z # zs" using rest by (metis takeWhile_dropWhile_id)
  have idx: "findIndex ?p prev = 0 + int (length ?ys)"
    using assms by (simp add: findIndex_def findIndex_from_eq)
  have "filter_index (\<lambda>_ j. j \<noteq> 0 + int (length ?ys)) 0 (?ys @ z # zs) = ?ys @ zs"
    by (rule filter_index_remove) simp
  then have "filter_index (\<lambda>_ j. j \<noteq> findIndex ?p prev) 0 prev = ?ys @ zs"
    using split idx by simp
  then show ?thesis
    using idx rest by (simp add: addSelection_def remove_first_def Let_def)
qed

lemma addSelection_new:
  assumes "\<not> list_ex (same_pick sel) prev"
  shows "addSelection sel prev = filter (\<lambda>item. \<not> same_market sel item) prev @ [sel]"
  using assms by (simp add: addSelection_cases)

lemma same_market_iff: "same_market sel item = (market_key item = market_key sel)"
  by (auto simp: same_market_def market_key_def)

lemma set_addSelection: "set (addSelection sel prev) \<subseteq> insert sel (set prev)"
  using set_filter_index[of _ 0 prev] by (auto simp: addSelection_cases)

lemma one_per_market_addSelection:
  assumes "one_per_market prev"
  shows "one_per_market (addSelection sel prev)"
proof (cases "list_ex (same_pick sel) prev")
  case True
  then show ?thesis
    using assms by (simp add: addSelection_cases one_per_market_def distinct_map_filter_index)
next
  case False
  have "distinct (map market_key (filter (\<lambda>item. \<not> same_market sel item) prev))"
    using assms by (simp add: one_per_market_def distinct_map_filter)
  moreover have
    "market_key sel \<notin> market_key ` set (filter (\<lambda>item. \<not> same_market sel item) prev)"
    by (auto simp: same_market_iff)
  ultimately show ?thesis
    using False by (simp add: addSelection_cases one_per_market_def)
qed

lemma one_per_market_step:
  "one_per_market (items s) \<Longrightarrow> one_per_market (items (slip_step s a))"
  by (cases a)
     (simp_all add: one_per_market_addSelection removeSelection_def,
      simp_all add: one_per_market_def distinct_map_filter_index)

lemma run_slip_snoc: "run_slip (acts @ [a]) = slip_step (run_slip acts) a"
  by (simp add: run_slip_def)

lemma one_per_market_run: "one_per_market (items (run_slip acts))"
proof (induction acts rule: rev_induct)
  case Nil
  then show ?case by (simp add: run_slip_def initial_slip_def one_per_market_def)
next
  case (snoc a acts)
  then show ?case by (simp add: run_slip_snoc one_per_market_step)
qed

lemma distinct_pick_addSelection:
  assumes "distinct (map pick_key prev)"
  shows "distinct (map pick_key (addSelection sel prev))"
proof (cases "list_ex (same_pick sel) prev")
  case True
  then show ?thesis
    using assms by (simp add: addSelection_cases distinct_map_filter_index)
next
  case False
  have "distinct (map pick_key (filter (\<lambda>item. \<not> same_market sel item) prev))"
    using assms by (simp add: distinct_map_filter)
  moreover have
    "pick_key sel \<notin> pick_key ` set (filter (\<lambda>item. \<not> same_market sel item) prev)"
    by (auto simp: same_market_def pick_key_def)
  ultimately show ?thesis
    using False by (simp add: addSelection_cases)
qed

lemma addSelection_twice:
  assumes "\<not> list_ex (same_market sel) prev"
  shows "addSelection sel (addSelection sel prev) = prev"
proof -
  from assms have nopick: "\<not> list_ex (same_pick sel) prev"
    by (auto simp: list_ex_iff same_market_def same_pick_def)
  from assms have "filter (\<lambda>item. \<not> same_market sel item) prev = prev"
    by (auto simp: list_ex_iff)
  with nopick have first: "addSelection sel prev = prev @ [sel]"
    by (simp add: addSelection_new)
  have ex: "list_ex (same_pick sel) (prev @ [sel])"
    by (simp add: same_pick_def)
  have tw: "takeWhile (\<lambda>x. \<not> same_pick sel x) (prev @ [sel]) = prev"
    using nopick by (simp add: list_ex_iff takeWhile_append2 same_pick_def)
  have dw: "dropWhile (\<lambda>x. \<not> same_pick sel x) (prev @ [sel]) = [sel]"
    using nopick by (simp add: list_ex_iff dropWhile_append2 same_pick_def)
  show ?thesis
    using first addSelection_existing[OF ex] tw dw by (simp add: remove_first_def)
qed

lemmas slip_eval =
  addSelection_def removeSelection_def findIndex_def same_pick_def same_market_def
  run_slip_def initial_slip_def pick_def lakers_h2h_def celtics_h2h_def lakers_spread_def
  james_over_25_def james_over_27_def james_under_25_def curry_over_4_def
  one_per_market_def market_key_def pick_key_def remove_first_def

section \<open>Claims about the bet slip\<close>

text \<open>
  C7, as the code has it. When the slip already holds a pick with the same game, market
  and selection string, \<open>addSelection\<close> removes the first such pick and adds nothing.
  Adding the same selection twice in a row gives back the prior slip when that slip
  held no pick of the selection's market (a pick of the same market is replaced by
  the first call and stays lost). A slip without duplicate picks stays without them.
\<close>

theorem addSelection_toggle:
  "(list_ex (same_pick sel) prev \<longrightarrow>
      addSelection sel prev = remove_first (same_pick sel) prev) \<and>
   (\<not> list_ex (same_market sel) prev \<longrightarrow>
      addSelection sel (addSelection sel prev) = prev) \<and>
   (distinct (map pick_key prev) \<longrightarrow> distinct (map pick_key (addSelection sel prev)))"
  using addSelection_existing addSelection_twice distinct_pick_addSelection by blast

theorem addSelection_toggle_witness:
  "list_ex (same_pick lakers_h2h) [lakers_h2h, lakers_spread] \<and>
   addSelection lakers_h2h [lakers_h2h, lakers_spread] = [lakers_spread] \<and>
   \<not> list_ex (same_market lakers_h2h) [lakers_spread] \<and>
   addSelection lakers_h2h (addSelection lakers_h2h [lakers_spread]) = [lakers_spread] \<and>
   distinct (map pick_key [lakers_h2h, lakers_spread]) \<and>
   distinct (map pick_key (addSelection lakers_h2h [lakers_h2h, lakers_spread]))"
  using addSelection_toggle[of lakers_h2h "[lakers_h2h, lakers_spread]"]
    addSelection_toggle[of lakers_h2h "[lakers_spread]"]
  by (simp add: slip_eval)

text \<open>
  C7 as stated fails: with the Lakers picked to win, picking the Celtics to win the
  same game twice in a row leaves an empty slip, not the prior one.
\<close>

theorem addSelection_twice_counterexample:
  "addSelection celtics_h2h (addSelection celtics_h2h [lakers_h2h]) = [] \<and>
   addSelection celtics_h2h (addSelection celtics_h2h [lakers_h2h]) \<noteq> [lakers_h2h]"
  by (simp add: slip_eval)

text \<open>
  C8. When every pick the slip holds for the market of the new selection has another
  selection string, \<open>addSelection\<close> removes those picks and appends the new selection,
  which is then the only pick of its market; and whatever calls built the slip, after
  an \<open>addSelection\<close> call it holds at most one pick per market per game.
\<close>

theorem addSelection_replaces_market_pick:
  "(list_all (\<lambda>p. same_market sel p \<longrightarrow> selection p \<noteq> selection sel) prev \<longrightarrow>
      addSelection sel prev = filter (\<lambda>item. \<not> same_market sel item) prev @ [sel] \<and>
      filter (same_market sel) (addSelection sel prev) = [sel]) \<and>
   one_per_market (items (slip_step (run_slip acts) (AddSelection sel')))"
proof -
  have only: "filter (same_market sel) (filter (\<lambda>item. \<not> same_market sel item) prev @ [sel]) = [sel]"
    by (simp add: same_market_def)
  have step: "one_per_market (items (slip_step (run_slip acts) (AddSelection sel')))"
    using one_per_market_run by (rule one_per_market_step)
  have new: "\<not> list_ex (same_pick sel) prev"
    if "list_all (\<lambda>p. same_market sel p \<longrightarrow> selection p \<noteq> selection sel) prev"
    using that by (auto simp: list_all_iff list_ex_iff same_market_def same_pick_def)
  show ?thesis
    using only step addSelection_new[OF new] by simp
qed

theorem addSelection_replaces_market_pick_witness:
  "list_all (\<lambda>p. same_market celtics_h2h p \<longrightarrow> selection p \<noteq> selection celtics_h2h)
     [lakers_h2h, lakers_spread] \<and>
   addSelection celtics_h2h [lakers_h2h, lakers_spread] = [lakers_spread, celtics_h2h] \<and>
   one_per_market (items (slip_step (run_slip [AddSelection lakers_h2h, AddSelection lakers_spread])
      (AddSelection celtics_h2h)))"
  using addSelection_replaces_market_pick[of celtics_h2h "[lakers_h2h, lakers_spread]"
      "[AddSelection lakers_h2h, AddSelection lakers_spread]" celtics_h2h]
  by (simp add: slip_eval)

section \<open>Proofs: conflict detection\<close>

subsection \<open>Grouping\<close>

lemma map_of_push_own:
  "map_of (push_own k v g) =
     (map_of g)(k \<mapsto> (case map_of g k of None \<Rightarrow> [v] | Some vs \<Rightarrow> vs @ [v]))"
  by (induction k v g rule: push_own.induct) (auto simp: fun_eq_iff)

lemma keys_push_own:
  "map fst (push_own k v g) = (if k \<in> set (map fst g) then map fst g else map fst g @ [k])"
  by (induction k v g rule: push_own.induct) auto

lemma distinct_keys_push_own:
  "distinct (map fst g) \<Longrightarrow> distinct (map fst (push_own k v g))"
  by (simp add: keys_push_own)

lemma group_by_snoc:
  "group_by key (xs @ [x]) =
     (case group_by key xs of Inl e \<Rightarrow> Inl e | Inr g \<Rightarrow> push_group (key x) x g)"
  by (simp add: group_by_def)

text \<open>
  When no key is an inherited name the loop does not throw, and the object it builds
  has one property per key, holding the items of that key in their order.
\<close>

lemma group_by_Inr:
  assumes "\<forall>x \<in> set xs. key x \<notin> set Object_prototype_names"
  shows "\<exists>g. group_by key xs = Inr g \<and> distinct (map fst g) \<and>
             (\<forall>k. map_of g k = (if k \<in> key ` set xs
                                then Some (filter (\<lambda>x. key x = k) xs) else None))"
  using assms
proof (induction xs rule: rev_induct)
  case Nil
  then show ?case by (simp add: group_by_def)
next
  case (snoc x xs)
  then obtain g where g: "group_by key xs = Inr g" "distinct (map fst g)"
    "\<forall>k. map_of g k = (if k \<in> key ` set xs then Some (filter (\<lambda>x. key x = k) xs) else None)"
    by auto
  from snoc.prems have nx: "key x \<notin> set Object_prototype_names" by simp
  have r: "group_by key (xs @ [x]) = Inr (push_own (key x) x g)"
    using g(1) nx by (simp add: group_by_snoc push_group_def)
  have m: "\<forall>k. map_of (push_own (key x) x g) k =
             (if k \<in> key ` set (xs @ [x])
              then Some (filter (\<lambda>y. key y = k) (xs @ [x])) else None)"
    using g(3) by (auto simp: map_of_push_own filter_empty_conv image_iff)
  from r m distinct_keys_push_own[OF g(2)] show ?case by blast
qed

lemma group_entries:
  assumes "distinct (map fst g)"
    and "\<forall>k. map_of g k = (if k \<in> key ` set xs
                            then Some (filter (\<lambda>x. key x = k) xs) else None)"
    and "(k, vs) \<in> set g"
  shows "vs = filter (\<lambda>x. key x = k) xs" and "vs \<noteq> []"
proof -
  from assms(1,3) have "map_of g k = Some vs" by simp
  with assms(2) have k: "k \<in> key ` set xs" and vs: "vs = filter (\<lambda>x. key x = k) xs"
    by (auto split: if_splits)
  from vs show "vs = filter (\<lambda>x. key x = k) xs" .
  from k vs show "vs \<noteq> []" by (auto simp: filter_empty_conv)
qed

lemma set_object_entries: "set (object_entries g) = set g"
  by (auto simp: object_entries_def)

subsection \<open>Keys\<close>

lemma hyphen_in_prop_key: "CHR ''-'' \<in> set (prop_key i)"
  by (simp add: prop_key_def)

lemma prop_key_not_inherited: "prop_key i \<notin> set Object_prototype_names"
proof
  assume "prop_key i \<in> set Object_prototype_names"
  moreover have "list_all (\<lambda>n. CHR ''-'' \<notin> set n) Object_prototype_names"
    by (simp add: Object_prototype_names_def)
  ultimately have "CHR ''-'' \<notin> set (prop_key i)" by (auto simp: list_all_iff)
  with hyphen_in_prop_key show False by blast
qed

lemma takeWhile_stop:
  "\<forall>x \<in> set xs. P x \<Longrightarrow> \<not> P y \<Longrightarrow> takeWhile P (xs @ y # ys) = xs"
  by (induction xs) auto

text \<open>A key splits at its last hyphen when the market type has none.\<close>

lemma key_split:
  assumes "p1 @ ''-'' @ m1 = p2 @ ''-'' @ m2"
    and "CHR ''-'' \<notin> set m1" and "CHR ''-'' \<notin> set m2"
  shows "p1 = p2 \<and> m1 = m2"
proof -
  let ?P = "\<lambda>c. c \<noteq> CHR ''-''"
  have tw: "takeWhile ?P (rev m @ CHR ''-'' # r) = rev m" if "CHR ''-'' \<notin> set m" for m r
    using that by (intro takeWhile_stop) auto
  from assms(1) have "rev (p1 @ ''-'' @ m1) = rev (p2 @ ''-'' @ m2)" by simp
  then have e: "rev m1 @ CHR ''-'' # rev p1 = rev m2 @ CHR ''-'' # rev p2" by simp
  then have "takeWhile ?P (rev m1 @ CHR ''-'' # rev p1) = takeWhile ?P (rev m2 @ CHR ''-'' # rev p2)"
    by (rule arg_cong)
  then have "rev m1 = rev m2" using tw[OF assms(2)] tw[OF assms(3)] by simp
  then have m: "m1 = m2" by simp
  with assms(1) show ?thesis by simp
qed


lemma length_le_one_same_key:
  assumes "distinct (map f vs)" and "\<forall>x \<in> set vs. f x = c"
  shows "length vs \<le> 1"
proof (cases vs)
  case Nil
  then show ?thesis by simp
next
  case (Cons a as)
  show ?thesis
  proof (cases as)
    case Nil
    with Cons show ?thesis by simp
  next
    case (Cons b bs)
    with \<open>vs = a # as\<close> assms show ?thesis by auto
  qed
qed

subsection \<open>The result of \<open>getConflicts\<close>\<close>

lemma conflicts_of_games_Inr:
  assumes "\<forall>e \<in> set es. game_conflicts (snd e) = Inr (f e)"
  shows "conflicts_of_games es = Inr (concat (map f es))"
  using assms by (induction es) simp_all

text \<open>The player groups of the items of one game, and what the game contributes.\<close>

lemma player_prop_conflicts_Inr:
  "\<exists>pg. group_by prop_key (filter is_player_prop gameItems) = Inr pg \<and>
        distinct (map fst pg) \<and>
        (\<forall>k. map_of pg k =
              (if k \<in> prop_key ` set (filter is_player_prop gameItems)
               then Some (filter (\<lambda>x. prop_key x = k) (filter is_player_prop gameItems))
               else None)) \<and>
        player_prop_conflicts gameItems =
          Inr (concat (map player_group_conflict (object_entries pg)))"
proof -
  from group_by_Inr[of "filter is_player_prop gameItems" prop_key]
  obtain pg where pg: "group_by prop_key (filter is_player_prop gameItems) = Inr pg"
    "distinct (map fst pg)"
    "\<forall>k. map_of pg k =
              (if k \<in> prop_key ` set (filter is_player_prop gameItems)
               then Some (filter (\<lambda>x. prop_key x = k) (filter is_player_prop gameItems))
               else None)"
    using prop_key_not_inherited by blast
  then show ?thesis by (simp add: player_prop_conflicts_def Let_def)
qed

lemma game_conflicts_Inr:
  "\<exists>pg. group_by prop_key (filter is_player_prop gameItems) = Inr pg \<and>
        distinct (map fst pg) \<and>
        (\<forall>k. map_of pg k =
              (if k \<in> prop_key ` set (filter is_player_prop gameItems)
               then Some (filter (\<lambda>x. prop_key x = k) (filter is_player_prop gameItems))
               else None)) \<and>
        game_conflicts gameItems =
          Inr (h2h_conflicts gameItems @ total_conflicts gameItems @
               concat (map player_group_conflict (object_entries pg)))"
  using player_prop_conflicts_Inr[of gameItems] by (auto simp: game_conflicts_def)





subsection \<open>Over and Under\<close>







subsection \<open>The list \<open>getConflicts\<close> returns\<close>

lemma game_conflicts_projr: "game_conflicts gameItems = Inr (projr (game_conflicts gameItems))"
  using game_conflicts_Inr[of gameItems] by auto

lemma getConflicts_Inr:
  assumes "\<forall>x \<in> set its. feed_keys x"
  shows "\<exists>gg. distinct (map fst gg) \<and>
           (\<forall>k. map_of gg k =
              (if k \<in> gameId ` set its then Some (filter (\<lambda>x. gameId x = k) its) else None)) \<and>
           getConflicts its =
             Inr (concat (map (\<lambda>e. projr (game_conflicts (snd e))) (object_entries gg)))"
proof -
  from assms have "\<forall>x \<in> set its. gameId x \<notin> set Object_prototype_names"
    by (simp add: feed_keys_def)
  from group_by_Inr[OF this] obtain gg where gg: "group_by gameId its = Inr gg"
    "distinct (map fst gg)"
    "\<forall>k. map_of gg k =
       (if k \<in> gameId ` set its then Some (filter (\<lambda>x. gameId x = k) its) else None)"
    by blast
  have "conflicts_of_games (object_entries gg) =
          Inr (concat (map (\<lambda>e. projr (game_conflicts (snd e))) (object_entries gg)))"
    by (rule conflicts_of_games_Inr) (rule ballI, rule game_conflicts_projr)
  with gg(1) have "getConflicts its =
          Inr (concat (map (\<lambda>e. projr (game_conflicts (snd e))) (object_entries gg)))"
    by (simp add: getConflicts_def)
  with gg(2,3) show ?thesis by blast
qed




text \<open>No conflict when each market of each game has at most one pick.\<close>

lemma getConflicts_empty:
  assumes d: "one_per_market its" and f: "\<forall>x \<in> set its. feed_keys x"
  shows "getConflicts its = Inr []"
proof -
  from getConflicts_Inr[OF f] obtain gg where gg: "distinct (map fst gg)"
    "\<forall>k. map_of gg k =
       (if k \<in> gameId ` set its then Some (filter (\<lambda>x. gameId x = k) its) else None)"
    and cs: "getConflicts its =
       Inr (concat (map (\<lambda>e. projr (game_conflicts (snd e))) (object_entries gg)))"
    by auto
  have "projr (game_conflicts (snd e)) = []" if e: "e \<in> set gg" for e
  proof -
    obtain g gi where egi: "e = (g, gi)" by (cases e)
    from group_entries[OF gg] e egi have gi: "gi = filter (\<lambda>x. gameId x = g) its" by simp
    from d have dgi: "distinct (map market_key gi)"
      by (simp add: gi one_per_market_def distinct_map_filter)
    have m: "length (filter (\<lambda>i. marketType i = t) gi) \<le> 1" for t
    proof (rule length_le_one_same_key[where f = market_key and c = "(g, t)"])
      show "distinct (map market_key (filter (\<lambda>i. marketType i = t) gi))"
        using dgi by (simp add: distinct_map_filter)
      show "\<forall>x \<in> set (filter (\<lambda>i. marketType i = t) gi). market_key x = (g, t)"
        by (auto simp: gi market_key_def)
    qed
    have h2h: "h2h_conflicts gi = []"
      using m[of "''h2h''"] by (simp add: h2h_conflicts_def Let_def)
    have tot: "total_conflicts gi = []"
      using m[of "''total''"] by (simp add: total_conflicts_def Let_def)
    from game_conflicts_Inr[of gi] obtain pg where pg: "distinct (map fst pg)"
      "\<forall>k. map_of pg k =
              (if k \<in> prop_key ` set (filter is_player_prop gi)
               then Some (filter (\<lambda>x. prop_key x = k) (filter is_player_prop gi))
               else None)"
      "game_conflicts gi =
          Inr (h2h_conflicts gi @ total_conflicts gi @
               concat (map player_group_conflict (object_entries pg)))"
      by blast
    have "player_group_conflict kp = []" if kp: "kp \<in> set pg" for kp
    proof -
      obtain k props where kpe: "kp = (k, props)" by (cases kp)
      from group_entries[OF pg(1,2)] kp kpe have
        props: "props = filter (\<lambda>x. prop_key x = k) (filter is_player_prop gi)" by simp
      have mem: "\<forall>x \<in> set props. prop_key x = k \<and> x \<in> set its \<and> gameId x = g"
        unfolding props gi by simp
      have "length props \<le> 1"
      proof (cases props)
        case Nil
        then show ?thesis by simp
      next
        case (Cons a as)
        then have a: "a \<in> set props" by simp
        have "\<forall>x \<in> set props. market_key x = (g, marketType a)"
        proof
          fix x assume x: "x \<in> set props"
          with a mem have "prop_key x = prop_key a" by simp
          moreover from x mem f have "CHR ''-'' \<notin> set (marketType x)"
            by (auto simp: feed_keys_def)
          moreover from a mem f have "CHR ''-'' \<notin> set (marketType a)"
            by (auto simp: feed_keys_def)
          ultimately have "marketType x = marketType a"
            using key_split[of "template_string (playerName x)" "marketType x"
                "template_string (playerName a)" "marketType a"]
            by (simp add: prop_key_def)
          moreover from x mem have "gameId x = g" by simp
          ultimately show "market_key x = (g, marketType a)" by (simp add: market_key_def)
        qed
        moreover have "distinct (map market_key props)"
          using dgi by (simp add: props distinct_map_filter)
        ultimately show ?thesis by (intro length_le_one_same_key)
      qed
      then show ?thesis by (simp add: kpe player_group_conflict_def Let_def)
    qed
    with pg(3) h2h tot show ?thesis by (simp add: egi set_object_entries)
  qed
  with cs show ?thesis by (simp add: set_object_entries)
qed

lemma added_selections_append:
  "added_selections (acts @ bs) = added_selections acts @ added_selections bs"
  by (induction acts rule: added_selections.induct) simp_all

lemma items_run_added:
  "set (items (run_slip acts)) \<subseteq> set (added_selections acts)"
proof (induction acts rule: rev_induct)
  case Nil
  then show ?case by (simp add: run_slip_def initial_slip_def)
next
  case (snoc a acts)
  show ?case
  proof (cases a)
    case (AddSelection sel)
    then show ?thesis
      using snoc set_addSelection[of sel "items (run_slip acts)"]
      by (auto simp: run_slip_snoc added_selections_append)
  next
    case (RemoveSelection i)
    then show ?thesis
      using snoc set_filter_index[of _ 0 "items (run_slip acts)"]
      by (auto simp: run_slip_snoc added_selections_append removeSelection_def)
  next
    case ClearBetSlip
    then show ?thesis by (simp add: run_slip_snoc)
  next
    case (SetStake v)
    then show ?thesis using snoc by (simp add: run_slip_snoc added_selections_append)
  qed
qed

lemma feed_keys_run:
  "list_all feed_keys (added_selections acts) \<Longrightarrow> \<forall>x \<in> set (items (run_slip acts)). feed_keys x"
  using items_run_added[of acts] by (auto simp: list_all_iff)

lemma market_vocabulary_no_hyphen:
  "list_all (\<lambda>m. CHR ''-'' \<notin> set m) market_vocabulary"
  by (simp add: market_vocabulary_def)


lemmas pair_eval =
  feed_keys_def prop_type_def over_pick_def under_pick_def has_over_def has_under_def
  pair_picks_def picks_from_quotes_def player_conflict_record_def
  Object_prototype_names_def prop_key_def template_string_def is_player_prop_def
  startsWith_def

section \<open>Claims about conflict detection\<close>

text \<open>
  C5. Every slip state the context's calls (\<open>addSelection\<close>, \<open>removeSelection\<close>,
  \<open>clearBetSlip\<close>, \<open>setStake\<close>) build from the empty slip holds at most one pick per
  game and market. For selections with the keys of the feed (\<open>feed_keys\<close>),
  \<open>getConflicts\<close> returns the empty list in every such state, so \<open>hasConflict\<close> is
  false.
\<close>

theorem slip_states_conflict_free:
  "one_per_market (items (run_slip acts)) \<and>
   (list_all feed_keys (added_selections acts) \<longrightarrow>
      getConflicts (items (run_slip acts)) = Inr [] \<and>
      hasConflict (items (run_slip acts)) = Inr False)"
proof -
  have one: "one_per_market (items (run_slip acts))" by (rule one_per_market_run)
  have "getConflicts (items (run_slip acts)) = Inr []"
    if "list_all feed_keys (added_selections acts)"
    using one feed_keys_run[OF that] by (rule getConflicts_empty)
  with one show ?thesis by (simp add: hasConflict_def)
qed

theorem slip_states_conflict_free_witness:
  "list_all feed_keys
     (added_selections [AddSelection lakers_h2h, AddSelection james_over_25,
        AddSelection celtics_h2h, RemoveSelection 0, AddSelection james_under_25,
        AddSelection curry_over_4]) \<and>
   items (run_slip [AddSelection lakers_h2h, AddSelection james_over_25,
        AddSelection celtics_h2h, RemoveSelection 0, AddSelection james_under_25,
        AddSelection curry_over_4])
     = [celtics_h2h, james_under_25, curry_over_4] \<and>
   getConflicts [celtics_h2h, james_under_25, curry_over_4] = Inr [] \<and>
   hasConflict [celtics_h2h, james_under_25, curry_over_4] = Inr False"
proof -
  let ?acts = "[AddSelection lakers_h2h, AddSelection james_over_25,
        AddSelection celtics_h2h, RemoveSelection 0, AddSelection james_under_25,
        AddSelection curry_over_4]"
  have f: "list_all feed_keys (added_selections ?acts)"
    by (simp add: slip_eval pair_eval)
  have i: "items (run_slip ?acts) = [celtics_h2h, james_under_25, curry_over_4]"
    by (simp add: slip_eval)
  from slip_states_conflict_free[of ?acts] f i show ?thesis by simp
qed



section \<open>Proofs: odds aggregation\<close>

lemma foldl_odds: "foldl (\<lambda>total item. total * odds item) a its = a * prod_list (map odds its)"
  by (induction its arbitrary: a) (simp_all add: mult.assoc)

lemma rawOdds_product: "rawOdds its = odds_product its"
  by (simp add: rawOdds_def odds_product_def foldl_odds)

lemma isSGM_same_game:
  assumes "2 \<le> length its" and "list_all (\<lambda>i. gameId i = g) its"
  shows "isSGM its"
proof -
  from assms(1) have "its \<noteq> []" by auto
  then have "hd its \<in> set its" by simp
  with assms show ?thesis by (auto simp: isSGM_def list_all_iff)
qed

text \<open>What the code computes for a slip of at least two selections of one game.\<close>

lemma totalOdds_same_game:
  assumes "2 \<le> length its" and "list_all (\<lambda>i. gameId i = g) its"
  shows "totalOdds its =
           odds_product its * (if sameTeamH2HSpread its then 0.90 else 1)
             * (if hasPlayerProps its \<and> (hasH2H its \<or> hasSpread its \<or> hasTotal its)
                then 0.95 else 1)"
  using isSGM_same_game[OF assms]
  by (auto simp: totalOdds_def rawOdds_product correlationFactor_def
      calculateCorrelationFactor_def sameTeamH2HSpread_def Let_def)

lemmas odds_eval =
  totalOdds_def rawOdds_def correlationFactor_def isSGM_def calculateCorrelationFactor_def
  sameTeamH2HSpread_def hasH2H_def hasSpread_def hasTotal_def hasPlayerProps_def
  startsWith_def first_word_def odds_product_def Let_def
  los_angeles_h2h_def los_angeles_spread_def los_angeles_spreads_def

section \<open>Claims about odds aggregation\<close>

text \<open>
  C3 fails on the code. The slip of the head-to-head pick \<open>Los Angeles Lakers\<close> and
  the spread pick \<open>Los Angeles Lakers +5.5\<close> of one game, built by two calls of
  \<open>addSelection\<close>, has two selections of one game, a head-to-head selection and a
  spread selection whose display string begins with the team name of the
  head-to-head pick. Its total odds are the bare product 1.8 * 1.9, not the product
  times 0.90: the code compares the head-to-head pick with the first space-separated
  word of the spread pick, \<open>Los\<close>. With the one-word name \<open>Lakers\<close> the same two picks
  do get the factor 0.90. The pages, which pass the feed's market type \<open>spreads\<close> where
  the code looks for \<open>spread\<close>, get no factor either.
\<close>

theorem same_team_several_words_no_factor:
  "items (run_slip [AddSelection los_angeles_h2h, AddSelection los_angeles_spread])
     = [los_angeles_h2h, los_angeles_spread] \<and>
   map gameId [los_angeles_h2h, los_angeles_spread] = [''g1'', ''g1''] \<and>
   map marketType [los_angeles_h2h, los_angeles_spread] = [''h2h'', ''spread''] \<and>
   map selection [los_angeles_h2h, los_angeles_spread]
     = [''Los Angeles Lakers'', ''Los Angeles Lakers +5.5''] \<and>
   startsWith (selection los_angeles_spread) (selection los_angeles_h2h @ '' '') \<and>
   odds_product [los_angeles_h2h, los_angeles_spread] = 1.8 * 1.9 \<and>
   totalOdds [los_angeles_h2h, los_angeles_spread] = 1.8 * 1.9 \<and>
   totalOdds [los_angeles_h2h, los_angeles_spread]
     \<noteq> odds_product [los_angeles_h2h, los_angeles_spread] * 0.90 \<and>
   totalOdds [lakers_h2h, lakers_spread] = odds_product [lakers_h2h, lakers_spread] * 0.90 \<and>
   totalOdds [los_angeles_h2h, los_angeles_spreads] = 1.8 * 1.9"
  by (simp add: odds_eval slip_eval)

text \<open>
  C9 fails on the code, by the same comparison. The slip of the head-to-head pick
  \<open>Los Angeles Lakers\<close>, the spread pick \<open>Los Angeles Lakers +5.5\<close> and a player-prop
  pick of one game, built by three calls of \<open>addSelection\<close>, has total odds of the
  product times 0.95, not the product times 0.90 times 0.95. With the one-word name
  \<open>Lakers\<close> the same three picks do get both factors. A player-prop pick with the
  pages' spread pick alone (market type \<open>spreads\<close>) gets no factor at all.
\<close>

theorem player_prop_several_words_one_factor:
  "items (run_slip [AddSelection los_angeles_h2h, AddSelection los_angeles_spread,
                    AddSelection james_over_25])
     = [los_angeles_h2h, los_angeles_spread, james_over_25] \<and>
   map gameId [los_angeles_h2h, los_angeles_spread, james_over_25]
     = [''g1'', ''g1'', ''g1''] \<and>
   map marketType [los_angeles_h2h, los_angeles_spread, james_over_25]
     = [''h2h'', ''spread'', ''player_points''] \<and>
   map selection [los_angeles_h2h, los_angeles_spread, james_over_25]
     = [''Los Angeles Lakers'', ''Los Angeles Lakers +5.5'', ''LeBron James Over 25.5''] \<and>
   odds_product [los_angeles_h2h, los_angeles_spread, james_over_25] = 1.8 * 1.9 * 2 \<and>
   totalOdds [los_angeles_h2h, los_angeles_spread, james_over_25] = 1.8 * 1.9 * 2 * 0.95 \<and>
   totalOdds [los_angeles_h2h, los_angeles_spread, james_over_25]
     \<noteq> odds_product [los_angeles_h2h, los_angeles_spread, james_over_25] * 0.90 * 0.95 \<and>
   totalOdds [lakers_h2h, lakers_spread, james_over_25]
     = odds_product [lakers_h2h, lakers_spread, james_over_25] * 0.90 * 0.95 \<and>
   totalOdds [celtics_h2h, james_over_25] = odds_product [celtics_h2h, james_over_25] * 0.95 \<and>
   totalOdds [los_angeles_spreads, james_over_25] = 1.9 * 2"
  by (simp add: odds_eval slip_eval)

section \<open>Proofs: the ledger\<close>

lemma find_append_miss:
  "find P xs = None \<Longrightarrow> find P (xs @ ys) = find P ys"
  by (induction xs) (auto split: if_splits)

lemma find_map_update:
  assumes "\<And>x. P (f x) = P x"
  shows "find P (map f xs) = map_option f (find P xs)"
  using assms by (induction xs) auto

lemma getOrCreate_found:
  assumes "getOrCreateUserBalance weekId leagueId userId displayName db = (wb, db1)"
  shows "userBalance db1 weekId userId = Some wb"
    and "bets db1 = bets db" and "bet_legs db1 = bet_legs db"
    and "userBalance db weekId userId = Some wb \<Longrightarrow> db1 = db"
  using assms
  by (auto simp: getOrCreateUserBalance_def userBalance_def Let_def find_append_miss
      split: option.splits)

lemma foldl_createBetLeg:
  "foldl (createBetLeg b) d its =
     d\<lparr>bet_legs := bet_legs d @
                     map (\<lambda>(k, item). bet_leg_document k b item) (enumerate (next_id d) its),
       next_id := next_id d + length its\<rparr>"
proof (induction its arbitrary: d)
  case Nil
  then show ?case by simp
next
  case (Cons item its)
  have "foldl (createBetLeg b) d (item # its) =
        foldl (createBetLeg b) (createBetLeg b d item) its"
    by simp
  also have "\<dots> = (createBetLeg b d item)\<lparr>bet_legs := bet_legs (createBetLeg b d item) @
                     map (\<lambda>(k, item). bet_leg_document k b item)
                       (enumerate (next_id (createBetLeg b d item)) its),
       next_id := next_id (createBetLeg b d item) + length its\<rparr>"
    by (rule Cons)
  also have "\<dots> = d\<lparr>bet_legs := bet_legs d @
                     map (\<lambda>(k, item). bet_leg_document k b item)
                       (enumerate (next_id d) (item # its)),
       next_id := next_id d + length (item # its)\<rparr>"
    by (simp add: createBetLeg_def)
  finally show ?case .
qed

lemma map_enumerate_ignore:
  "map (\<lambda>(k, item). g item) (enumerate n its) = map g its"
  by (induction its arbitrary: n) simp_all

lemma userBalance_updateBalance:
  assumes "userBalance db weekId userId = Some wb"
  shows "userBalance (updateBalance (wb_id wb) nb nt db) weekId userId =
           Some (wb\<lparr>balance := nb, totalbets := nt\<rparr>)"
proof -
  let ?f = "\<lambda>d. if wb_id d = wb_id wb then d\<lparr>balance := nb, totalbets := nt\<rparr> else d"
  have "find (\<lambda>b. weekid b = weekId \<and> userid b = userId) (map ?f (week_balances db)) =
        map_option ?f (find (\<lambda>b. weekid b = weekId \<and> userid b = userId) (week_balances db))"
    by (rule find_map_update) simp
  with assms show ?thesis by (simp add: userBalance_def updateBalance_def)
qed

lemmas ledger_eval =
  placeBet_def getOrCreateUserBalance_def userBalance_def updateBalance_def createBetLeg_def
  bet_leg_document_def number_or_null_def string_or_null_def STARTING_BALANCE_def
  week_balance_def database_with_def slip_of_100_def pick_def lakers_h2h_def
  lakers_spread_def Let_def

section \<open>Claims about the ledger\<close>

text \<open>
  C1. Let \<open>wb\<close> be the user's balance row for the week, as \<open>placeBet\<close> reads it (the
  stored row, or the row created on first access). If its balance is below the stake,
  \<open>placeBet\<close> fails with the insufficient-balance error, no bet and no leg is
  created, the user's row is still \<open>wb\<close> (balance and bet count unchanged), and when
  the row was stored before the call the database is unchanged altogether.
\<close>

theorem placeBet_insufficient_balance:
  assumes "fst (getOrCreateUserBalance weekId leagueId userId displayName db) = wb"
    and "balance wb < stake betSlip"
  shows "fst (placeBet betSlip userId leagueId weekId displayName now db)
           = Inl InsufficientBalance \<and>
         bets (snd (placeBet betSlip userId leagueId weekId displayName now db)) = bets db \<and>
         bet_legs (snd (placeBet betSlip userId leagueId weekId displayName now db))
           = bet_legs db \<and>
         userBalance (snd (placeBet betSlip userId leagueId weekId displayName now db))
           weekId userId = Some wb \<and>
         (userBalance db weekId userId = Some wb \<longrightarrow>
            snd (placeBet betSlip userId leagueId weekId displayName now db) = db)"
proof -
  obtain db1 where g1: "getOrCreateUserBalance weekId leagueId userId displayName db = (wb, db1)"
    using assms(1) by (cases "getOrCreateUserBalance weekId leagueId userId displayName db") auto
  have p: "placeBet betSlip userId leagueId weekId displayName now db
             = (Inl InsufficientBalance, db1)"
    using g1 assms(2) by (simp add: placeBet_def)
  show ?thesis using getOrCreate_found[OF g1] by (simp add: p)
qed

theorem placeBet_insufficient_balance_witness:
  "fst (getOrCreateUserBalance ''w1'' ''l1'' ''ann'' ''Ann''
          (database_with (week_balance 1 ''ann'' 50 0 None)))
     = week_balance 1 ''ann'' 50 0 None \<and>
   balance (week_balance 1 ''ann'' 50 0 None) < stake slip_of_100 \<and>
   placeBet slip_of_100 ''ann'' ''l1'' ''w1'' ''Ann'' ''2026-11-02T12:00:00.000Z''
       (database_with (week_balance 1 ''ann'' 50 0 None))
     = (Inl InsufficientBalance, database_with (week_balance 1 ''ann'' 50 0 None))"
proof -
  have h: "fst (getOrCreateUserBalance ''w1'' ''l1'' ''ann'' ''Ann''
          (database_with (week_balance 1 ''ann'' 50 0 None)))
     = week_balance 1 ''ann'' 50 0 None"
    "balance (week_balance 1 ''ann'' 50 0 None) < stake slip_of_100"
    by (simp_all add: ledger_eval)
  have u: "userBalance (database_with (week_balance 1 ''ann'' 50 0 None)) ''w1'' ''ann''
     = Some (week_balance 1 ''ann'' 50 0 None)"
    by (simp add: ledger_eval)
  from placeBet_insufficient_balance[OF h, of "''2026-11-02T12:00:00.000Z''"] u h
  show ?thesis by (simp add: prod_eq_iff)
qed

text \<open>
  C2. Let \<open>wb\<close> be the user's balance row as \<open>placeBet\<close> reads it. If its balance is at
  least the stake, \<open>placeBet\<close> returns a bet with status pending; the bet is the one
  bet added to the stored bets; the legs added are one per selection, in order, each
  of this bet and with result pending; and the user's row afterwards is \<open>wb\<close> with the
  balance lowered by the stake and the bet count raised by one. This holds whatever
  the number of selections, so for every slip of at least one.
\<close>

theorem placeBet_success:
  assumes "fst (getOrCreateUserBalance weekId leagueId userId displayName db) = wb"
    and "stake betSlip \<le> balance wb"
  shows "\<exists>bet legs.
           fst (placeBet betSlip userId leagueId weekId displayName now db) = Inr bet \<and>
           status bet = ''pending'' \<and>
           bet_stake bet = stake betSlip \<and>
           bets (snd (placeBet betSlip userId leagueId weekId displayName now db))
             = bets db @ [bet] \<and>
           bet_legs (snd (placeBet betSlip userId leagueId weekId displayName now db))
             = bet_legs db @ legs \<and>
           length legs = length (items betSlip) \<and>
           map leg_selection legs = map selection (items betSlip) \<and>
           map leg_gameId legs = map gameId (items betSlip) \<and>
           map leg_marketType legs = map marketType (items betSlip) \<and>
           list_all (\<lambda>leg. betId leg = bet_id bet \<and> result leg = ''pending'') legs \<and>
           userBalance (snd (placeBet betSlip userId leagueId weekId displayName now db))
             weekId userId
             = Some (wb\<lparr>balance := balance wb - stake betSlip,
                        totalbets := totalbets wb + 1\<rparr>)"
proof -
  obtain db1 where g1: "getOrCreateUserBalance weekId leagueId userId displayName db = (wb, db1)"
    using assms(1) by (cases "getOrCreateUserBalance weekId leagueId userId displayName db") auto
  note f = getOrCreate_found[OF g1]
  define bet where "bet = \<lparr>bet_id = next_id db1, bet_userId = userId, bet_leagueId = leagueId,
                     bet_weekId = weekId,
                     betType = (if length (items betSlip) > 1 then ''SGM'' else ''Single''),
                     bet_stake = stake betSlip, bet_totalOdds = slip_totalOdds betSlip,
                     bet_potentialPayout = slip_potentialPayout betSlip,
                     status = ''pending'', settledAt = None, createdAt = now\<rparr>"
  define db2 where "db2 = db1\<lparr>bets := bets db1 @ [bet], next_id := next_id db1 + 1\<rparr>"
  define db3 where "db3 = foldl (createBetLeg (bet_id bet)) db2 (items betSlip)"
  define after where
    "after = updateBalance (wb_id wb) (balance wb - stake betSlip) (totalbets wb + 1) db3"
  define legs where
    "legs = map (\<lambda>(k, item). bet_leg_document k (bet_id bet) item)
              (enumerate (next_id db2) (items betSlip))"
  have p: "placeBet betSlip userId leagueId weekId displayName now db = (Inr bet, after)"
    using g1 assms(2) by (simp add: placeBet_def Let_def bet_def db2_def db3_def after_def)
  have db3: "db3 = db2\<lparr>bet_legs := bet_legs db2 @ legs,
                        next_id := next_id db2 + length (items betSlip)\<rparr>"
    by (simp add: db3_def foldl_createBetLeg legs_def)
  have ub3: "userBalance db3 weekId userId = Some wb"
    using f(1) by (simp add: db3 db2_def userBalance_def)
  have 1: "status bet = ''pending''" "bet_stake bet = stake betSlip" by (simp_all add: bet_def)
  have 2: "bets after = bets db @ [bet]"
    using f(2) by (simp add: after_def updateBalance_def db3 db2_def)
  have 3: "bet_legs after = bet_legs db @ legs"
    using f(3) by (simp add: after_def updateBalance_def db3 db2_def)
  have 4: "length legs = length (items betSlip)" by (simp add: legs_def)
  have 5: "map leg_selection legs = map selection (items betSlip)"
    using map_enumerate_ignore[of selection "next_id db2" "items betSlip"]
    by (simp add: legs_def bet_leg_document_def split_def comp_def)
  have 6: "map leg_gameId legs = map gameId (items betSlip)"
    using map_enumerate_ignore[of gameId "next_id db2" "items betSlip"]
    by (simp add: legs_def bet_leg_document_def split_def comp_def)
  have 7: "map leg_marketType legs = map marketType (items betSlip)"
    using map_enumerate_ignore[of marketType "next_id db2" "items betSlip"]
    by (simp add: legs_def bet_leg_document_def split_def comp_def)
  have 8: "list_all (\<lambda>leg. betId leg = bet_id bet \<and> result leg = ''pending'') legs"
    by (auto simp: legs_def bet_leg_document_def list_all_iff)
  have 9: "userBalance after weekId userId =
       Some (wb\<lparr>balance := balance wb - stake betSlip, totalbets := totalbets wb + 1\<rparr>)"
    unfolding after_def by (rule userBalance_updateBalance[OF ub3])
  from p 1 2 3 4 5 6 7 8 9 show ?thesis
    by (intro exI[of _ bet] exI[of _ legs]) simp
qed

theorem placeBet_success_witness:
  "fst (getOrCreateUserBalance ''w1'' ''l1'' ''ann'' ''Ann''
          (database_with (week_balance 1 ''ann'' 200 0 None)))
     = week_balance 1 ''ann'' 200 0 None \<and>
   stake slip_of_100 \<le> balance (week_balance 1 ''ann'' 200 0 None) \<and>
   userBalance
     (snd (placeBet slip_of_100 ''ann'' ''l1'' ''w1'' ''Ann'' ''2026-11-02T12:00:00.000Z''
             (database_with (week_balance 1 ''ann'' 200 0 None)))) ''w1'' ''ann''
     = Some ((week_balance 1 ''ann'' 100 0 None)\<lparr>totalbets := 1\<rparr>) \<and>
   length (bets
     (snd (placeBet slip_of_100 ''ann'' ''l1'' ''w1'' ''Ann'' ''2026-11-02T12:00:00.000Z''
             (database_with (week_balance 1 ''ann'' 200 0 None))))) = 1 \<and>
   length (bet_legs
     (snd (placeBet slip_of_100 ''ann'' ''l1'' ''w1'' ''Ann'' ''2026-11-02T12:00:00.000Z''
             (database_with (week_balance 1 ''ann'' 200 0 None))))) = 2"
proof -
  let ?db = "database_with (week_balance 1 ''ann'' 200 0 None)"
  let ?r = "placeBet slip_of_100 ''ann'' ''l1'' ''w1'' ''Ann'' ''2026-11-02T12:00:00.000Z'' ?db"
  have h: "fst (getOrCreateUserBalance ''w1'' ''l1'' ''ann'' ''Ann'' ?db)
     = week_balance 1 ''ann'' 200 0 None"
    "stake slip_of_100 \<le> balance (week_balance 1 ''ann'' 200 0 None)"
    by (simp_all add: ledger_eval)
  from placeBet_success[OF h, of "''2026-11-02T12:00:00.000Z''"]
  obtain bet legs where
    b: "bets (snd ?r) = bets ?db @ [bet]" and
    l: "bet_legs (snd ?r) = bet_legs ?db @ legs" "length legs = length (items slip_of_100)" and
    u: "userBalance (snd ?r) ''w1'' ''ann''
          = Some ((week_balance 1 ''ann'' 200 0 None)
              \<lparr>balance := balance (week_balance 1 ''ann'' 200 0 None) - stake slip_of_100,
               totalbets := totalbets (week_balance 1 ''ann'' 200 0 None) + 1\<rparr>)"
    by blast
  have "length (bets (snd ?r)) = 1" using b by (simp add: database_with_def)
  moreover have "length (bet_legs (snd ?r)) = 2"
    using l by (simp add: database_with_def slip_of_100_def)
  moreover have "userBalance (snd ?r) ''w1'' ''ann''
     = Some ((week_balance 1 ''ann'' 100 0 None)\<lparr>totalbets := 1\<rparr>)"
    using u by (simp add: week_balance_def slip_of_100_def)
  ultimately show ?thesis using h by simp
qed

section \<open>Proofs: the weekly leaderboard\<close>

lemma compare_le_iff: "(compareBalances a b \<le> 0) = ranks_before a b"
  by (auto simp: compareBalances_def ranks_before_def time_le_def Let_def split: option.splits)

lemma compare_gt_flip: "compareBalances x y > 0 \<Longrightarrow> ranks_before y x"
  by (auto simp: compareBalances_def ranks_before_def time_le_def Let_def
      split: option.splits if_splits)

lemma ranks_before_trans:
  assumes "ranks_before a b" "ranks_before b c"
    and "tied a b \<longrightarrow> (lastwintime a = None) = (lastwintime b = None)"
    and "tied b c \<longrightarrow> (lastwintime b = None) = (lastwintime c = None)"
  shows "ranks_before a c"
  using assms
  by (auto simp: ranks_before_def time_le_def tied_def split: option.splits)

lemma set_insert_sorted: "set (insert_sorted cmp x ys) = insert x (set ys)"
  by (induction ys) auto

lemma mset_insert_sorted: "mset (insert_sorted cmp x ys) = add_mset x (mset ys)"
  by (induction ys) auto

lemma mset_insertion_sort: "mset (insertion_sort cmp xs) = mset xs"
  by (induction xs) (simp_all add: insertion_sort_def mset_insert_sorted)

lemma set_insertion_sort: "set (insertion_sort cmp xs) = set xs"
  using mset_insertion_sort[of cmp xs] by (metis set_mset_mset)

lemma sorted_insert_sorted:
  assumes "sorted_wrt ranks_before ys"
    and u: "\<forall>a \<in> insert x (set ys). \<forall>b \<in> insert x (set ys).
             tied a b \<longrightarrow> (lastwintime a = None) = (lastwintime b = None)"
  shows "sorted_wrt ranks_before (insert_sorted compareBalances x ys)"
  using assms
proof (induction ys)
  case Nil
  then show ?case by simp
next
  case (Cons y ys)
  show ?case
  proof (cases "compareBalances x y > 0")
    case True
    have "sorted_wrt ranks_before (insert_sorted compareBalances x ys)"
      using Cons by auto
    moreover have "ranks_before y x" using True by (rule compare_gt_flip)
    moreover have "\<forall>z \<in> set ys. ranks_before y z" using Cons.prems(1) by simp
    ultimately show ?thesis using True by (simp add: set_insert_sorted)
  next
    case False
    then have xy: "ranks_before x y" by (simp add: compare_le_iff[symmetric])
    have "ranks_before x z" if "z \<in> set ys" for z
    proof -
      from that Cons.prems(1) have "ranks_before y z" by simp
      with xy show ?thesis
        using Cons.prems(2) that by (intro ranks_before_trans[of x y z]) auto
    qed
    with xy False Cons.prems(1) show ?thesis by simp
  qed
qed

lemma sorted_insertion_sort:
  assumes "\<forall>a \<in> set xs. \<forall>b \<in> set xs.
             tied a b \<longrightarrow> (lastwintime a = None) = (lastwintime b = None)"
  shows "sorted_wrt ranks_before (insertion_sort compareBalances xs)"
  using assms
proof (induction xs)
  case Nil
  then show ?case by (simp add: insertion_sort_def)
next
  case (Cons x xs)
  have s: "sorted_wrt ranks_before (insertion_sort compareBalances xs)"
    using Cons by auto
  have "sorted_wrt ranks_before
          (insert_sorted compareBalances x (insertion_sort compareBalances xs))"
    using s Cons.prems by (intro sorted_insert_sorted) (auto simp: set_insertion_sort)
  then show ?case by (simp add: insertion_sort_def)
qed

text \<open>A sort by insertion leaves an array alone in which no neighbouring pair is out
  of order.\<close>

lemma keeps_runs_insertion_sort: "keeps_runs insertion_sort"
proof -
  have "insertion_sort cmp xs = xs" if "in_comparator_order cmp xs"
    for cmp :: "'a \<Rightarrow> 'a \<Rightarrow> real" and xs
    using that
  proof (induction xs)
    case Nil
    then show ?case by (simp add: insertion_sort_def)
  next
    case (Cons x xs)
    then have "insertion_sort cmp xs = xs"
      by (cases xs) (simp_all add: in_comparator_order_def)
    with Cons.prems show ?case
      by (cases xs) (simp_all add: insertion_sort_def in_comparator_order_def)
  qed
  then show ?thesis unfolding keeps_runs_def by blast
qed

text \<open>With win times uniform among tied rows, the comparator is consistent.\<close>

lemma compare_less_iff:
  "(compareBalances a b < 0) =
     (balance a > balance b \<or>
      (balance a = balance b \<and>
       (highestwinpayout a > highestwinpayout b \<or>
        (highestwinpayout a = highestwinpayout b \<and> time_lt (lastwintime a) (lastwintime b)))))"
  by (auto simp: compareBalances_def time_lt_def Let_def split: option.splits)

lemma compare_greater_iff:
  "(compareBalances a b > 0) =
     (balance a < balance b \<or>
      (balance a = balance b \<and>
       (highestwinpayout a < highestwinpayout b \<or>
        (highestwinpayout a = highestwinpayout b \<and> time_lt (lastwintime b) (lastwintime a)))))"
  by (auto simp: compareBalances_def time_lt_def Let_def split: option.splits)

lemma compare_eq_iff:
  "(compareBalances a b = 0) =
     (tied a b \<and> \<not> time_lt (lastwintime a) (lastwintime b) \<and>
      \<not> time_lt (lastwintime b) (lastwintime a))"
  by (auto simp: compareBalances_def tied_def time_lt_def Let_def split: option.splits)

lemma compare_refl: "compareBalances a a = 0"
  by (simp add: compare_eq_iff tied_def time_lt_def split: option.splits)

lemma compare_sym: "compareBalances a b = 0 \<Longrightarrow> compareBalances b a = 0"
  by (auto simp: compare_eq_iff tied_def)

lemma compare_tie_tied: "compareBalances a b = 0 \<Longrightarrow> tied a b"
  by (simp add: compare_eq_iff)

lemma compare_trans_eq:
  assumes "compareBalances a b = 0" "compareBalances b c = 0"
    and "(lastwintime a = None) = (lastwintime b = None)"
    and "(lastwintime b = None) = (lastwintime c = None)"
  shows "compareBalances a c = 0"
  using assms
  by (auto simp: compare_eq_iff tied_def time_lt_def split: option.splits)

lemma compare_trans_less:
  assumes "compareBalances a b < 0" "compareBalances b c < 0"
  shows "compareBalances a c < 0"
  using assms
  by (auto simp: compare_less_iff time_lt_def split: option.splits)

lemma compare_trans_greater:
  assumes "compareBalances a b > 0" "compareBalances b c > 0"
  shows "compareBalances a c > 0"
  using assms
  by (auto simp: compare_greater_iff time_lt_def split: option.splits)

lemma uniform_tied:
  assumes "win_times_uniform bs"
  shows "a \<in> set bs \<Longrightarrow> b \<in> set bs \<Longrightarrow> tied a b \<Longrightarrow> (lastwintime a = None) = (lastwintime b = None)"
  using assms unfolding win_times_uniform_def list_all_iff by blast

lemma compare_trans_eq_uniform:
  assumes "win_times_uniform bs"
    and "a \<in> set bs" "b \<in> set bs" "c \<in> set bs"
    and "compareBalances a b = 0" "compareBalances b c = 0"
  shows "compareBalances a c = 0"
proof -
  from assms have "tied a b" "tied b c" by (simp_all add: compare_tie_tied)
  then have "(lastwintime a = None) = (lastwintime b = None)"
    "(lastwintime b = None) = (lastwintime c = None)"
    using assms(2-4) by (simp_all add: uniform_tied[OF assms(1)])
  with assms(5,6) show ?thesis by (rule compare_trans_eq)
qed

lemma uniform_consistent:
  assumes "win_times_uniform bs"
  shows "consistent_comparator compareBalances bs"
  unfolding consistent_comparator_def list_all_iff
proof (intro ballI conjI impI)
  fix a show "compareBalances a a = 0" by (rule compare_refl)
next
  fix a b assume "compareBalances a b = 0"
  then show "compareBalances b a = 0" by (rule compare_sym)
next
  fix a b c assume "a \<in> set bs" "b \<in> set bs" "c \<in> set bs"
    and "compareBalances a b = 0 \<and> compareBalances b c = 0"
  then show "compareBalances a c = 0"
    using compare_trans_eq_uniform[OF assms, of a b c] by simp
next
  fix a b c assume "compareBalances a b < 0 \<and> compareBalances b c < 0"
  then show "compareBalances a c < 0" using compare_trans_less[of a b c] by simp
next
  fix a b c assume "0 < compareBalances a b \<and> 0 < compareBalances b c"
  then show "0 < compareBalances a c" using compare_trans_greater[of a b c] by simp
qed

lemma map_entry_with_ranks: "map entry (with_ranks i bs) = bs"
  by (induction bs arbitrary: i) simp_all

lemma map_rank_with_ranks:
  "map rank (with_ranks i bs) = map (\<lambda>k. i + 1 + int k) [0..<length bs]"
proof (induction bs arbitrary: i)
  case Nil
  then show ?case by simp
next
  case (Cons b bs)
  have "map (\<lambda>k. i + 1 + int k) [0..<length (b # bs)] =
        (i + 1) # map (\<lambda>k. i + 1 + int k) (map Suc [0..<length bs])"
    by (simp add: upt_conv_Cons map_Suc_upt del: upt_Suc)
  also have "\<dots> = (i + 1) # map (\<lambda>k. (i + 1) + 1 + int k) [0..<length bs]"
    by (simp add: comp_def add.commute add.left_commute)
  finally show ?case by (simp add: Cons)
qed

lemmas leaderboard_eval =
  getLeaderboard_def insertion_sort_def compareBalances_def week_balance_def
  later_winner_def no_winner_def earlier_winner_def
  win_times_uniform_def tied_def ranks_before_def time_le_def Let_def

text \<open>
  What holds of the leaderboard whatever the engine's sort: each balance row of the
  week is listed once, with ranks 1, 2, 3, ... in list order; and when, among rows tied
  on balance and on highest win payout, either all have a last win time or none has,
  the comparator is consistent and the list is in the order balance descending, then
  highest win payout descending, then last win time ascending.
\<close>

lemma leaderboard_order_uniform_win_times:
  assumes "conforming_sort array_sort"
  shows "mset (map entry (getLeaderboard array_sort allBalances weekId))
     = mset (filter (\<lambda>b. weekid b = weekId) allBalances)"
    and "map rank (getLeaderboard array_sort allBalances weekId)
     = map (\<lambda>k. int k + 1) [0..<length (filter (\<lambda>b. weekid b = weekId) allBalances)]"
    and "win_times_uniform (filter (\<lambda>b. weekid b = weekId) allBalances) \<Longrightarrow>
      sorted_wrt ranks_before (map entry (getLeaderboard array_sort allBalances weekId))"
proof -
  let ?bs = "filter (\<lambda>b. weekid b = weekId) allBalances"
  from assms have m: "mset (array_sort compareBalances ?bs) = mset ?bs"
    unfolding conforming_sort_def by blast
  then have l: "length (array_sort compareBalances ?bs) = length ?bs"
    by (metis size_mset)
  show "mset (map entry (getLeaderboard array_sort allBalances weekId)) = mset ?bs"
    using m by (simp add: getLeaderboard_def Let_def map_entry_with_ranks)
  show "map rank (getLeaderboard array_sort allBalances weekId)
          = map (\<lambda>k. int k + 1) [0..<length ?bs]"
    using l by (simp add: getLeaderboard_def Let_def map_rank_with_ranks add.commute)
  show "sorted_wrt ranks_before (map entry (getLeaderboard array_sort allBalances weekId))"
    if u: "win_times_uniform ?bs"
  proof -
    from assms uniform_consistent[OF u]
    have e: "array_sort compareBalances ?bs = insertion_sort compareBalances ?bs"
      unfolding conforming_sort_def by blast
    from u have "\<forall>a \<in> set ?bs. \<forall>b \<in> set ?bs.
        tied a b \<longrightarrow> (lastwintime a = None) = (lastwintime b = None)"
      unfolding win_times_uniform_def list_all_iff by blast
    then have "sorted_wrt ranks_before (insertion_sort compareBalances ?bs)"
      by (rule sorted_insertion_sort)
    with e show ?thesis by (simp add: getLeaderboard_def Let_def map_entry_with_ranks)
  qed
qed

text \<open>
  Rows A and B with balance 1200, B with the higher win payout, and C with balance 900
  come out as B, A, C, whatever the order they were fetched in and whatever the
  engine's sort.
\<close>

lemma leaderboard_three:
  assumes c: "conforming_sort array_sort"
    and w: "weekid A = w" "weekid B = w" "weekid C = w"
    and b: "balance A = 1200" "balance B = 1200" "balance C = 900"
    and p: "highestwinpayout A < highestwinpayout B"
    and f: "fetched \<in> set [[A, B, C], [A, C, B], [B, A, C], [B, C, A], [C, A, B], [C, B, A]]"
  shows "getLeaderboard array_sort fetched w =
           [\<lparr>entry = B, rank = 1\<rparr>, \<lparr>entry = A, rank = 2\<rparr>, \<lparr>entry = C, rank = 3\<rparr>]"
proof -
  from w f have fl: "filter (\<lambda>b. weekid b = w) fetched = fetched" by auto
  have "tied x y \<longrightarrow> (lastwintime x = None) = (lastwintime y = None)"
    if "x \<in> {A, B, C}" "y \<in> {A, B, C}" for x y
    using that b p by (auto simp: tied_def)
  moreover from f have "set fetched = {A, B, C}" by auto
  ultimately have "win_times_uniform fetched"
    unfolding win_times_uniform_def list_all_iff by blast
  then have "consistent_comparator compareBalances fetched" by (rule uniform_consistent)
  with c have "array_sort compareBalances fetched = insertion_sort compareBalances fetched"
    unfolding conforming_sort_def by blast
  moreover have "insertion_sort compareBalances fetched = [B, A, C]"
    using f b p by (auto simp: insertion_sort_def compareBalances_def Let_def)
  ultimately show ?thesis by (simp add: getLeaderboard_def fl Let_def)
qed

section \<open>Claims about the weekly leaderboard\<close>

text \<open>
  C6 fails on the code. Three rows level on balance and on highest win payout are
  fetched in the order: last win at time 2, no win yet, last win at time 1. The
  comparator reports a tie whenever one of two rows has no win time, so it reports a
  tie for each neighbouring pair while it puts the first row after the third: it is
  not a consistent comparator, and the language leaves the order to the engine. Every
  sort that returns an array with no neighbouring pair out of order as it is (a sort
  by insertion, a sort that looks for ascending runs) leaves the three rows where
  they are: the row with the later win gets rank 1 and the row with the earlier win
  rank 3, against the order "last win time ascending".
\<close>

theorem later_winner_ranks_first:
  "map lastwintime [later_winner, no_winner, earlier_winner] = [Some 2, None, Some 1] \<and>
   tied later_winner no_winner \<and> tied no_winner earlier_winner \<and>
   compareBalances later_winner no_winner = 0 \<and>
   compareBalances no_winner later_winner = 0 \<and>
   compareBalances no_winner earlier_winner = 0 \<and>
   compareBalances earlier_winner no_winner = 0 \<and>
   0 < compareBalances later_winner earlier_winner \<and>
   \<not> consistent_comparator compareBalances [later_winner, no_winner, earlier_winner] \<and>
   (keeps_runs array_sort \<longrightarrow>
      getLeaderboard array_sort [later_winner, no_winner, earlier_winner] ''w1''
        = [\<lparr>entry = later_winner, rank = 1\<rparr>, \<lparr>entry = no_winner, rank = 2\<rparr>,
           \<lparr>entry = earlier_winner, rank = 3\<rparr>]) \<and>
   \<not> ranks_before later_winner earlier_winner"
proof -
  let ?rows = "[later_winner, no_winner, earlier_winner]"
  have o: "in_comparator_order compareBalances ?rows"
    by (simp add: in_comparator_order_def leaderboard_eval)
  have f: "filter (\<lambda>b. weekid b = ''w1'') ?rows = ?rows"
    by (simp add: leaderboard_eval)
  have "getLeaderboard array_sort ?rows ''w1''
        = [\<lparr>entry = later_winner, rank = 1\<rparr>, \<lparr>entry = no_winner, rank = 2\<rparr>,
           \<lparr>entry = earlier_winner, rank = 3\<rparr>]"
    if "keeps_runs array_sort"
  proof -
    from that o have "array_sort compareBalances ?rows = ?rows"
      unfolding keeps_runs_def by blast
    then show ?thesis unfolding getLeaderboard_def f Let_def by simp
  qed
  moreover have "map lastwintime ?rows = [Some 2, None, Some 1]"
    "tied later_winner no_winner" "tied no_winner earlier_winner"
    "compareBalances later_winner no_winner = 0"
    "compareBalances no_winner later_winner = 0"
    "compareBalances no_winner earlier_winner = 0"
    "compareBalances earlier_winner no_winner = 0"
    "0 < compareBalances later_winner earlier_winner"
    "\<not> ranks_before later_winner earlier_winner"
    by (simp_all add: leaderboard_eval)
  moreover have "\<not> consistent_comparator compareBalances ?rows"
    by (simp add: consistent_comparator_def leaderboard_eval)
  ultimately show ?thesis by blast
qed

theorem later_winner_ranks_first_witness:
  "keeps_runs (insertion_sort :: (WeekBalance \<Rightarrow> WeekBalance \<Rightarrow> real) \<Rightarrow> _) \<and>
   getLeaderboard insertion_sort [later_winner, no_winner, earlier_winner] ''w1''
     = [\<lparr>entry = later_winner, rank = 1\<rparr>, \<lparr>entry = no_winner, rank = 2\<rparr>,
        \<lparr>entry = earlier_winner, rank = 3\<rparr>] \<and>
   lastwintime later_winner = Some 2 \<and> lastwintime earlier_winner = Some 1"
  using later_winner_ranks_first[of insertion_sort] keeps_runs_insertion_sort
  by (simp add: leaderboard_eval)

section \<open>Proofs: the period scheduler\<close>

lemma Day_MakeDate: "0 \<le> time \<Longrightarrow> time < msPerDay \<Longrightarrow> Day (MakeDate day time) = day"
  by (simp add: Day_def MakeDate_def msPerDay_def)

lemma TimeWithinDay_MakeDate:
  "0 \<le> time \<Longrightarrow> time < msPerDay \<Longrightarrow> TimeWithinDay (MakeDate day time) = time"
  by (simp add: TimeWithinDay_def MakeDate_def msPerDay_def)

lemma TimeWithinDay_range: "0 \<le> TimeWithinDay t \<and> TimeWithinDay t < msPerDay"
  by (simp add: TimeWithinDay_def msPerDay_def)

text \<open>Setting the day of the month to the current one plus \<open>k\<close> moves the date by \<open>k\<close> days.\<close>

lemma Day_setDate: "Day (setDate t (getDate t + k)) = Day t + k"
  using TimeWithinDay_range[of t] by (simp add: setDate_def getDate_def Day_MakeDate)

lemma getWeekBounds_start:
  "fst (getWeekBounds tz instant) =
     MakeDate (Day (getAESTDate tz instant) - (getDay (getAESTDate tz instant) + 5) mod 7) 0"
proof -
  let ?now = "getAESTDate tz instant"
  let ?k = "(getDay ?now + 5) mod 7"
  have "Day (setDate ?now (getDate ?now + (- ?k))) = Day ?now + (- ?k)" by (rule Day_setDate)
  then show ?thesis
    by (simp add: getWeekBounds_def Let_def setHours_def MakeTime_def)
qed

lemma getWeekBounds_end:
  "snd (getWeekBounds tz instant) =
     MakeDate (Day (fst (getWeekBounds tz instant)) + 6) 86399999"
proof -
  let ?s = "fst (getWeekBounds tz instant)"
  have "Day (setDate ?s (getDate ?s + 6)) = Day ?s + 6" by (rule Day_setDate)
  then show ?thesis
    by (simp add: getWeekBounds_def Let_def setHours_def MakeTime_def)
qed

section \<open>Claims about the period scheduler\<close>

text \<open>
  C10. For every instant and every zone offset, the week \<open>getWeekBounds\<close> computes
  starts at midnight (time of day 0) of a Tuesday (\<open>getDay\<close> 2), on or before the day
  of the Sydney wall-clock reading and at most six days before it, so on the most
  recent Tuesday; it ends six days later at 23:59:59.999, which is seven days less a
  millisecond after the start. The bounds, the week number and the season year are
  computed from the wall-clock reading alone: two evaluations at instants with the
  same reading (two at the same instant, so) give the same week identity.
\<close>

theorem week_bounds_tuesday_to_monday:
  "TimeWithinDay (fst (getWeekBounds tz instant)) = 0 \<and>
   getDay (fst (getWeekBounds tz instant)) = 2 \<and>
   Day (fst (getWeekBounds tz instant)) \<le> Day (getAESTDate tz instant) \<and>
   Day (getAESTDate tz instant) - Day (fst (getWeekBounds tz instant)) \<le> 6 \<and>
   Day (snd (getWeekBounds tz instant)) = Day (fst (getWeekBounds tz instant)) + 6 \<and>
   TimeWithinDay (snd (getWeekBounds tz instant)) = MakeTime 23 59 59 999 \<and>
   snd (getWeekBounds tz instant) - fst (getWeekBounds tz instant) = 7 * msPerDay - 1 \<and>
   (getAESTDate tz instant' = getAESTDate tz instant \<longrightarrow>
      getWeekNumber tz instant' = getWeekNumber tz instant \<and>
      getSeasonYear tz instant' = getSeasonYear tz instant \<and>
      getWeekBounds tz instant' = getWeekBounds tz instant)"
proof -
  let ?now = "getAESTDate tz instant"
  let ?k = "(getDay ?now + 5) mod 7"
  let ?s = "fst (getWeekBounds tz instant)"
  let ?e = "snd (getWeekBounds tz instant)"
  have s: "?s = MakeDate (Day ?now - ?k) 0" by (rule getWeekBounds_start)
  have ds: "Day ?s = Day ?now - ?k" by (simp add: s Day_MakeDate msPerDay_def)
  have ts: "TimeWithinDay ?s = 0" by (simp add: s TimeWithinDay_MakeDate msPerDay_def)
  have e: "?e = MakeDate (Day ?s + 6) 86399999" by (rule getWeekBounds_end)
  have de: "Day ?e = Day ?s + 6" by (simp add: e Day_MakeDate msPerDay_def)
  have te: "TimeWithinDay ?e = MakeTime 23 59 59 999"
    by (simp add: e TimeWithinDay_MakeDate msPerDay_def MakeTime_def)
  have k: "0 \<le> ?k" "?k \<le> 6" by simp_all
  have wd: "getDay ?s = 2"
    unfolding getDay_def ds by presburger
  have s_eq: "?s = Day ?s * msPerDay"
    using ds by (simp add: s MakeDate_def)
  have "?e = (Day ?s + 6) * msPerDay + 86399999" by (simp add: e MakeDate_def)
  with s_eq have diff: "?e - ?s = 7 * msPerDay - 1"
    by (simp add: msPerDay_def algebra_simps)
  have same: "getWeekNumber tz instant' = getWeekNumber tz instant \<and>
      getSeasonYear tz instant' = getSeasonYear tz instant \<and>
      getWeekBounds tz instant' = getWeekBounds tz instant"
    if "getAESTDate tz instant' = getAESTDate tz instant"
    using that by (simp add: getWeekNumber_def getSeasonYear_def getWeekBounds_def)
  from ts wd ds k de te diff same show ?thesis by simp
qed

text \<open>
  The reading 2026-11-02 23:36:00 in Sydney (a Monday; 12:36:00.123 and 12:36:00.900
  UTC): the week runs from Tuesday 2026-10-27 00:00 to Monday 2026-11-02 23:59:59.999,
  and is week 2 of the season ending in 2027.
\<close>

theorem week_bounds_tuesday_to_monday_witness:
  "getAESTDate sydney_summer 1793622960900 = getAESTDate sydney_summer 1793622960123 \<and>
   getWeekBounds sydney_summer 1793622960123 = (1793059200000, 1793663999999) \<and>
   getDay 1793059200000 = 2 \<and>
   getWeekNumber sydney_summer 1793622960900 = 2 \<and>
   getSeasonYear sydney_summer 1793622960900 = 2027"
proof -
  have a: "getAESTDate sydney_summer 1793622960900 = getAESTDate sydney_summer 1793622960123"
    by (simp add: getAESTDate_def sydney_summer_def)
  have b: "getWeekBounds sydney_summer 1793622960123 = (1793059200000, 1793663999999)"
    by code_simp
  have n: "getWeekNumber sydney_summer 1793622960123 = 2" by code_simp
  have y: "getSeasonYear sydney_summer 1793622960123 = 2027" by code_simp
  from week_bounds_tuesday_to_monday[of sydney_summer 1793622960123 1793622960900] a b n y
  show ?thesis by simp
qed

end
